theory Spec2Isabelle
  imports Main "HOL-Library.AList" "HOL-Library.Word"
begin

section \<open>Data model of the queue controller\<close>

text \<open>
  The model follows \<^verbatim>\<open>source/lib/rocprofiler/hsa/queue_controller.cpp\<close> and
  \<^verbatim>\<open>queue_controller.hpp\<close>. Every \<^verbatim>\<open>std::unordered_map\<close> is an association list
  whose order stands for the (unspecified) iteration order of the container;
  \<^verbatim>\<open>map[k] = v\<close> is \<^const>\<open>AList.update\<close>, \<^verbatim>\<open>map.erase(k)\<close> is \<^const>\<open>AList.delete\<close>,
  \<^verbatim>\<open>map[k]->f()\<close> is \<^const>\<open>AList.map_entry\<close> and a range-for loop is a \<^const>\<open>fold\<close>.
  Each controller operation runs inside the write locks it takes for its whole body,
  so it is modelled as one atomic state transformer.
\<close>

type_synonym handle_t = "64 word"

text \<open>\<^verbatim>\<open>hsa_queue_t*\<close>, the key of the live-queue table.\<close>
type_synonym hsa_queue_ptr = "64 word"

text \<open>
  \<^verbatim>\<open>ClientID\<close> is declared in \<^verbatim>\<open>lib/rocprofiler/hsa/queue.hpp\<close>, which is not among the
  sources. Modelled from the spec: "an opaque, monotonically increasing integer, unique
  for the process lifetime", hence an unbounded natural number; the width of the
  machine type, and so its wrap-around, is not in the sources.
\<close>
type_synonym ClientID = nat

text \<open>\<^verbatim>\<open>rocprofiler_agent_type_t\<close> of \<^verbatim>\<open>include/rocprofiler/fwd.h\<close>.\<close>
datatype rocprofiler_agent_type_t =
  ROCPROFILER_AGENT_TYPE_NONE
  | ROCPROFILER_AGENT_TYPE_CPU
  | ROCPROFILER_AGENT_TYPE_GPU
  | ROCPROFILER_AGENT_TYPE_LAST

text \<open>
  \<^verbatim>\<open>rocprofiler_agent_t\<close>: the controller reads \<^verbatim>\<open>agent.id.handle\<close> and \<^verbatim>\<open>agent.type\<close> only.
\<close>
record rocprofiler_agent_t =
  id_handle :: handle_t
  agent_type :: rocprofiler_agent_type_t

text \<open>
  \<^verbatim>\<open>AgentCache\<close> (declared outside the sources): \<^verbatim>\<open>get_agent().handle\<close> is the runtime's
  agent handle, \<^verbatim>\<open>agent_t()\<close> the profiler's agent descriptor, \<open>index\<close> the ordinal the
  entry was built with.
\<close>
record AgentCache =
  get_agent_handle :: handle_t
  agent_t :: rocprofiler_agent_t
  index :: nat

text \<open>
  Modelled from the spec: the class \<^verbatim>\<open>Queue\<close> of \<^verbatim>\<open>lib/rocprofiler/hsa/queue.hpp\<close> is not
  among the sources. The spec gives a Proxy Queue an owning agent reference and "its own
  private map from Subscription Identifier to (pre-dispatch callback, completion
  callback)", the subscription snapshot; \<^verbatim>\<open>register_callback\<close> is an "idempotent insert
  into the queue's private subscription snapshot" and \<^verbatim>\<open>remove_callback\<close> an "idempotent
  erase". The callback types \<^verbatim>\<open>Queue::QueueCB\<close> and \<^verbatim>\<open>Queue::CompletedCB\<close> are the type
  parameters \<open>'q\<close> and \<open>'c\<close>.
\<close>
record ('q, 'c) Queue =
  get_agent :: AgentCache
  callbacks :: "(ClientID \<times> 'q \<times> 'c) list"

definition Queue_register_callback ::
  "ClientID \<Rightarrow> 'q \<Rightarrow> 'c \<Rightarrow> ('q, 'c) Queue \<Rightarrow> ('q, 'c) Queue" where
  "Queue_register_callback cbid qcb ccb q =
     q\<lparr>callbacks := AList.update cbid (qcb, ccb) (callbacks q)\<rparr>"

definition Queue_remove_callback :: "ClientID \<Rightarrow> ('q, 'c) Queue \<Rightarrow> ('q, 'c) Queue" where
  "Queue_remove_callback cbid q = q\<lparr>callbacks := AList.delete cbid (callbacks q)\<rparr>"

text \<open>
  Modelled from the spec: the \<^verbatim>\<open>Queue\<close> constructor, called by the create-queue hook. The
  new Proxy Queue refers to the agent cache entry it was built from and its snapshot is
  empty until the controller backfills it.
\<close>
definition new_Queue :: "AgentCache \<Rightarrow> ('q, 'c) Queue" where
  "new_Queue agent_info = \<lparr>get_agent = agent_info, callbacks = []\<rparr>"

text \<open>The two slots of \<^verbatim>\<open>CoreApiTable\<close> the controller writes: a slot holds either
  the address of a function of the runtime or the controller's own hook.\<close>
datatype queue_create_fn = runtime_create handle_t | create_queue_hook
datatype queue_destroy_fn = runtime_destroy handle_t | destroy_queue_hook

record CoreApiTable =
  hsa_queue_create_fn :: queue_create_fn
  hsa_queue_destroy_fn :: queue_destroy_fn

text \<open>\<^verbatim>\<open>AmdExtTable\<close> is copied by \<^verbatim>\<open>init\<close> and never inspected.\<close>
datatype AmdExtTable = AmdExtTable handle_t

text \<open>
  The state of \<^verbatim>\<open>QueueController\<close>, with the function-local
  \<^verbatim>\<open>static std::atomic<ClientID> client_id = 1\<close> of \<^verbatim>\<open>add_callback\<close> as the field
  \<open>client_id\<close>.
\<close>
record ('q, 'c) QueueController =
  core_table :: CoreApiTable
  ext_table :: AmdExtTable
  queues :: "(hsa_queue_ptr \<times> ('q, 'c) Queue) list"
  callback_cache :: "(ClientID \<times> rocprofiler_agent_t \<times> 'q \<times> 'c) list"
  supported_agents :: "(32 word \<times> AgentCache) list"
  client_id :: ClientID

text \<open>What ends the process: a failed \<^verbatim>\<open>CHECK\<close> or \<^verbatim>\<open>LOG(FATAL)\<close> of glog.\<close>
datatype fatal = CHECK_failed | LOG_FATAL_Could_not_find_agent handle_t

datatype hsa_status_t = HSA_STATUS_SUCCESS | HSA_STATUS_ERROR_FATAL

section \<open>Operations of the controller\<close>

text \<open>\<^verbatim>\<open>QueueController::add_queue\<close>; the \<^verbatim>\<open>std::unique_ptr<Queue>\<close> may be null.\<close>
definition add_queue ::
  "hsa_queue_ptr \<Rightarrow> ('q, 'c) Queue option \<Rightarrow> ('q, 'c) QueueController
     \<Rightarrow> fatal + ('q, 'c) QueueController" where
  "add_queue ptr queue st =
     (case queue of
        None \<Rightarrow> Inl CHECK_failed
      | Some q \<Rightarrow>
          let agent_id = id_handle (agent_t (get_agent q));
              m = AList.update ptr q (queues st)
          in Inr (st\<lparr>queues :=
                 fold (\<lambda>(cbid, agent, qcb, ccb) m.
                         if id_handle agent = agent_id
                         then AList.map_entry ptr (Queue_register_callback cbid qcb ccb) m
                         else m)
                      (callback_cache st) m\<rparr>))"

text \<open>\<^verbatim>\<open>QueueController::destory_queue\<close> (the source's spelling).\<close>
definition destory_queue ::
  "hsa_queue_ptr \<Rightarrow> ('q, 'c) QueueController \<Rightarrow> ('q, 'c) QueueController" where
  "destory_queue ptr st = st\<lparr>queues := AList.delete ptr (queues st)\<rparr>"

text \<open>\<^verbatim>\<open>QueueController::add_callback\<close>, returning the identifier and the new state.\<close>
definition add_callback ::
  "rocprofiler_agent_t \<Rightarrow> 'q \<Rightarrow> 'c \<Rightarrow> ('q, 'c) QueueController
     \<Rightarrow> ClientID \<times> ('q, 'c) QueueController" where
  "add_callback agent qcb ccb st =
     (let return_id = client_id st;
          cb_cache = AList.update (client_id st) (agent, qcb, ccb) (callback_cache st)
      in (return_id,
          st\<lparr>callback_cache := cb_cache,
             client_id := client_id st + 1,
             queues :=
               map (\<lambda>(ptr, queue).
                      if id_handle (agent_t (get_agent queue)) = id_handle agent
                      then (ptr, Queue_register_callback return_id qcb ccb queue)
                      else (ptr, queue))
                   (queues st)\<rparr>))"

text \<open>\<^verbatim>\<open>QueueController::remove_callback\<close>.\<close>
definition remove_callback ::
  "ClientID \<Rightarrow> ('q, 'c) QueueController \<Rightarrow> ('q, 'c) QueueController" where
  "remove_callback cbid st =
     st\<lparr>callback_cache := AList.delete cbid (callback_cache st),
        queues := map (\<lambda>(ptr, queue). (ptr, Queue_remove_callback cbid queue)) (queues st)\<rparr>"

text \<open>
  The hook \<^verbatim>\<open>create_queue\<close> installed in the dispatch table. \<open>ptr\<close> is the handle the
  \<^verbatim>\<open>Queue\<close> constructor stores in \<^verbatim>\<open>*queue\<close>; the arguments the hook only forwards to
  that constructor (size, type, error callback, data, segment sizes) are left out. The
  loop returns at the first cache entry whose agent handle is the requested one. After
  the loop \<^verbatim>\<open>LOG(FATAL)\<close> ends the process, so the \<^verbatim>\<open>return HSA_STATUS_ERROR_FATAL\<close> that
  follows it is never reached.
\<close>
fun create_queue_loop ::
  "(32 word \<times> AgentCache) list \<Rightarrow> handle_t \<Rightarrow> hsa_queue_ptr \<Rightarrow> ('q, 'c) QueueController
     \<Rightarrow> fatal + hsa_status_t \<times> ('q, 'c) QueueController" where
  "create_queue_loop [] agent ptr st = Inl (LOG_FATAL_Could_not_find_agent agent)"
| "create_queue_loop ((k, agent_info) # rest) agent ptr st =
     (if get_agent_handle agent_info = agent
      then (case add_queue ptr (Some (new_Queue agent_info)) st of
              Inl e \<Rightarrow> Inl e
            | Inr st' \<Rightarrow> Inr (HSA_STATUS_SUCCESS, st'))
      else create_queue_loop rest agent ptr st)"

definition create_queue ::
  "handle_t \<Rightarrow> hsa_queue_ptr \<Rightarrow> ('q, 'c) QueueController
     \<Rightarrow> fatal + hsa_status_t \<times> ('q, 'c) QueueController" where
  "create_queue agent ptr st = create_queue_loop (supported_agents st) agent ptr st"

text \<open>The hook \<^verbatim>\<open>destroy_queue\<close> installed in the dispatch table.\<close>
definition destroy_queue ::
  "hsa_queue_ptr \<Rightarrow> ('q, 'c) QueueController \<Rightarrow> hsa_status_t \<times> ('q, 'c) QueueController" where
  "destroy_queue hsa_queue st = (HSA_STATUS_SUCCESS, destory_queue hsa_queue st)"

section \<open>Sequences of calls\<close>

text \<open>
  A call of the controller's interface or of the installed create-queue hook. A run
  executes calls one after the other, collects the identifiers \<^verbatim>\<open>add_callback\<close> returned
  and stops at the first fatal diagnostic, as the process does.
\<close>
datatype ('q, 'c) call =
  Add_queue hsa_queue_ptr "('q, 'c) Queue option"
  | Destory_queue hsa_queue_ptr
  | Add_callback rocprofiler_agent_t 'q 'c
  | Remove_callback ClientID
  | Create_queue handle_t hsa_queue_ptr

fun step ::
  "('q, 'c) call \<Rightarrow> ('q, 'c) QueueController \<Rightarrow> fatal + ClientID list \<times> ('q, 'c) QueueController"
  where
  "step (Add_queue ptr queue) st =
     (case add_queue ptr queue st of Inl e \<Rightarrow> Inl e | Inr st' \<Rightarrow> Inr ([], st'))"
| "step (Destory_queue ptr) st = Inr ([], destory_queue ptr st)"
| "step (Add_callback agent qcb ccb) st =
     (case add_callback agent qcb ccb st of (return_id, st') \<Rightarrow> Inr ([return_id], st'))"
| "step (Remove_callback cbid) st = Inr ([], remove_callback cbid st)"
| "step (Create_queue agent ptr) st =
     (case create_queue agent ptr st of Inl e \<Rightarrow> Inl e | Inr (status, st') \<Rightarrow> Inr ([], st'))"

fun run ::
  "('q, 'c) call list \<Rightarrow> ('q, 'c) QueueController
     \<Rightarrow> fatal + ClientID list \<times> ('q, 'c) QueueController" where
  "run [] st = Inr ([], st)"
| "run (c # cs) st =
     (case step c st of
        Inl e \<Rightarrow> Inl e
      | Inr (ids, st') \<Rightarrow>
          (case run cs st' of
             Inl e \<Rightarrow> Inl e
           | Inr (ids', st'') \<Rightarrow> Inr (ids @ ids', st'')))"

text \<open>Only a proxy queue that nobody registered anything with yet is handed to
  \<^verbatim>\<open>add_queue\<close>: the create-queue hook passes the queue it has just constructed.\<close>
fun fresh_queue_arg :: "('q, 'c) call \<Rightarrow> bool" where
  "fresh_queue_arg (Add_queue ptr (Some q)) = (callbacks q = [])"
| "fresh_queue_arg c = True"

text \<open>The default-constructed controller: null tables, empty containers, and the
  identifier counter at its initial value 1.\<close>
definition QueueController_default :: "('q, 'c) QueueController" where
  "QueueController_default =
     \<lparr>core_table = \<lparr>hsa_queue_create_fn = runtime_create 0,
                     hsa_queue_destroy_fn = runtime_destroy 0\<rparr>,
      ext_table = AmdExtTable 0,
      queues = [], callback_cache = [], supported_agents = [], client_id = 1\<rparr>"

section \<open>Initialisation\<close>

text \<open>\<^verbatim>\<open>rocprofiler_service_buffer_tracing_kind_t\<close> of \<^verbatim>\<open>include/rocprofiler/fwd.h\<close>.\<close>
datatype rocprofiler_service_buffer_tracing_kind_t =
  ROCPROFILER_SERVICE_BUFFER_TRACING_NONE
  | ROCPROFILER_SERVICE_BUFFER_TRACING_HSA_API
  | ROCPROFILER_SERVICE_BUFFER_TRACING_HIP_API
  | ROCPROFILER_SERVICE_BUFFER_TRACING_MARKER_API
  | ROCPROFILER_SERVICE_BUFFER_TRACING_MEMORY_COPY
  | ROCPROFILER_SERVICE_BUFFER_TRACING_KERNEL_DISPATCH
  | ROCPROFILER_SERVICE_BUFFER_TRACING_PAGE_MIGRATION
  | ROCPROFILER_SERVICE_BUFFER_TRACING_SCRATCH_MEMORY
  | ROCPROFILER_SERVICE_BUFFER_TRACING_EXTERNAL_CORRELATION
  | ROCPROFILER_SERVICE_BUFFER_TRACING_LAST

text \<open>
  \<^verbatim>\<open>context::context\<close> (here \<open>context_t\<close>) is declared in \<^verbatim>\<open>lib/rocprofiler/context/context.hpp\<close>, not among
  the sources. Modelled from the spec: a context exposes "whether counter-collection is
  configured" (the pointer \<^verbatim>\<open>counter_collection\<close> is set) and, when buffered tracing is
  configured (the pointer \<^verbatim>\<open>buffered_tracer\<close> is set), "a predicate
  \<^verbatim>\<open>domains(domain_id) -> bool\<close>".
\<close>
record context_t =
  counter_collection :: bool
  buffered_tracer :: "(rocprofiler_service_buffer_tracing_kind_t \<Rightarrow> bool) option"

text \<open>The loop of \<^verbatim>\<open>init\<close> over the registered contexts, with its two \<^verbatim>\<open>break\<close>s;
  the result is the final value of \<^verbatim>\<open>enable_intercepter\<close>.\<close>
fun enable_intercepter :: "context_t list \<Rightarrow> bool" where
  "enable_intercepter [] = False"
| "enable_intercepter (itr # rest) =
     (if counter_collection itr then True
      else (case buffered_tracer itr of
              Some domains \<Rightarrow>
                if domains ROCPROFILER_SERVICE_BUFFER_TRACING_KERNEL_DISPATCH \<or>
                   domains ROCPROFILER_SERVICE_BUFFER_TRACING_MEMORY_COPY
                then True
                else enable_intercepter rest
            | None \<Rightarrow> enable_intercepter rest))"

text \<open>The interception policy in the words of the spec: "any context has
  counter-collection enabled, or any context has buffered tracing enabled for the
  kernel-dispatch or memory-copy domains".\<close>
definition interception_required :: "context_t list \<Rightarrow> bool" where
  "interception_required contexts \<longleftrightarrow>
     (\<exists>c \<in> set contexts. counter_collection c) \<or>
     (\<exists>c \<in> set contexts. \<exists>domains. buffered_tracer c = Some domains \<and>
        (domains ROCPROFILER_SERVICE_BUFFER_TRACING_KERNEL_DISPATCH \<or>
         domains ROCPROFILER_SERVICE_BUFFER_TRACING_MEMORY_COPY))"

text \<open>
  What the agent callback of \<^verbatim>\<open>init\<close> does besides filling the cache: it invokes the
  \<^verbatim>\<open>AgentCache\<close> constructor on the agent at an index, and it logs an error with the
  agent's handle.
\<close>
datatype init_event =
  AgentCache_constructor nat
  | LOG_ERROR_GPU_Agent_Construction_Failed handle_t

text \<open>\<^verbatim>\<open>std::unordered_map::emplace\<close>: no effect when the key is present.\<close>
definition emplace :: "'k \<Rightarrow> 'v \<Rightarrow> ('k \<times> 'v) list \<Rightarrow> ('k \<times> 'v) list" where
  "emplace k v al = (if map_of al k = None then al @ [(k, v)] else al)"

text \<open>
  The callback \<^verbatim>\<open>init\<close> passes to \<^verbatim>\<open>rocprofiler_query_available_agents\<close>, at loop index
  \<open>i\<close> with the agents from \<open>i\<close> on. The \<^verbatim>\<open>AgentCache\<close> constructor is not among the
  sources: it is the parameter \<open>ctor\<close>, which returns \<open>None\<close> where the constructor
  throws \<^verbatim>\<open>std::runtime_error\<close>, the failure the callback catches. The key of the cache
  is the \<^verbatim>\<open>size_t\<close> index converted to \<^verbatim>\<open>uint32_t\<close>. \<^verbatim>\<open>CHECK(user_data)\<close> holds, since
  \<^verbatim>\<open>init\<close> passes \<^verbatim>\<open>this\<close>.
\<close>
fun agents_callback ::
  "(rocprofiler_agent_t \<Rightarrow> nat \<Rightarrow> CoreApiTable \<Rightarrow> AmdExtTable \<Rightarrow> AgentCache option)
     \<Rightarrow> CoreApiTable \<Rightarrow> AmdExtTable \<Rightarrow> nat \<Rightarrow> rocprofiler_agent_t list
     \<Rightarrow> (32 word \<times> AgentCache) list \<times> init_event list
     \<Rightarrow> (32 word \<times> AgentCache) list \<times> init_event list" where
  "agents_callback ctor core ext i [] acc = acc"
| "agents_callback ctor core ext i (agent # rest) (supported, events) =
     (if agent_type agent \<noteq> ROCPROFILER_AGENT_TYPE_GPU
      then agents_callback ctor core ext (Suc i) rest (supported, events)
      else (case ctor agent i core ext of
              Some cache \<Rightarrow>
                agents_callback ctor core ext (Suc i) rest
                  (emplace (word_of_nat i) cache supported,
                   events @ [AgentCache_constructor i])
            | None \<Rightarrow>
                agents_callback ctor core ext (Suc i) rest
                  (supported,
                   events @ [AgentCache_constructor i,
                             LOG_ERROR_GPU_Agent_Construction_Failed (id_handle agent)])))"

text \<open>
  \<^verbatim>\<open>QueueController::init\<close>. The agent enumeration \<open>agents\<close> (what
  \<^verbatim>\<open>rocprofiler_query_available_agents\<close> hands to the callback) and the registered
  contexts (\<^verbatim>\<open>context::get_registered_contexts()\<close>) are parameters. \<open>core\<close> is the
  runtime's dispatch table, passed by reference: the controller keeps a copy taken
  before the hooks are written, and the updated table is the first component of the
  result.
\<close>
definition init ::
  "(rocprofiler_agent_t \<Rightarrow> nat \<Rightarrow> CoreApiTable \<Rightarrow> AmdExtTable \<Rightarrow> AgentCache option)
     \<Rightarrow> rocprofiler_agent_t list \<Rightarrow> context_t list \<Rightarrow> CoreApiTable \<Rightarrow> AmdExtTable
     \<Rightarrow> ('q, 'c) QueueController
     \<Rightarrow> CoreApiTable \<times> ('q, 'c) QueueController \<times> init_event list" where
  "init ctor agents contexts core ext st =
     (let st1 = st\<lparr>core_table := core, ext_table := ext\<rparr>;
          (supported, events) =
             agents_callback ctor (core_table st1) (ext_table st1) 0 agents
               (supported_agents st1, []);
          st2 = st1\<lparr>supported_agents := supported\<rparr>
      in (if enable_intercepter contexts
          then core\<lparr>hsa_queue_create_fn := create_queue_hook,
                    hsa_queue_destroy_fn := destroy_queue_hook\<rparr>
          else core,
          st2, events))"

text \<open>
  Modelled from the spec: the application creates and destroys queues through the
  runtime's dispatch table. A slot that holds one of the controller's hooks runs the
  hook; a slot that holds a function of the runtime runs code that does not know the
  controller, whose state stays as it is.
\<close>
datatype app_call = Hsa_queue_create handle_t hsa_queue_ptr | Hsa_queue_destroy hsa_queue_ptr

fun app_step ::
  "CoreApiTable \<Rightarrow> app_call \<Rightarrow> ('q, 'c) QueueController \<Rightarrow> fatal + ('q, 'c) QueueController"
  where
  "app_step tbl (Hsa_queue_create agent ptr) st =
     (case hsa_queue_create_fn tbl of
        create_queue_hook \<Rightarrow>
          (case create_queue agent ptr st of Inl e \<Rightarrow> Inl e | Inr (status, st') \<Rightarrow> Inr st')
      | runtime_create f \<Rightarrow> Inr st)"
| "app_step tbl (Hsa_queue_destroy ptr) st =
     (case hsa_queue_destroy_fn tbl of
        destroy_queue_hook \<Rightarrow> Inr (snd (destroy_queue ptr st))
      | runtime_destroy f \<Rightarrow> Inr st)"

fun app_run ::
  "CoreApiTable \<Rightarrow> app_call list \<Rightarrow> ('q, 'c) QueueController
     \<Rightarrow> fatal + ('q, 'c) QueueController" where
  "app_run tbl [] st = Inr st"
| "app_run tbl (c # cs) st =
     (case app_step tbl c st of Inl e \<Rightarrow> Inl e | Inr st' \<Rightarrow> app_run tbl cs st')"

section \<open>The locks of \<^verbatim>\<open>add_callback\<close>\<close>

text \<open>
  \<^verbatim>\<open>_callback_cache\<close> and \<^verbatim>\<open>_queues\<close> are \<^verbatim>\<open>common::Synchronized\<close> containers; the
  class is not among the sources. Modelled from the spec: "every mutating operation on
  either is a writer-lock critical section", so \<^verbatim>\<open>wlock\<close> takes the container's
  exclusive lock, runs the lambda and releases the lock, and it waits while another
  thread holds that lock.

  To see where the identifier is allocated with respect to the locks, the body of
  \<^verbatim>\<open>add_callback\<close> is also written as the sequence of its statements, in source order.
\<close>
datatype lock = callback_cache_lock | queues_lock

datatype stmt =
  Wlock lock
  | Unlock lock
  | Load_return_id
  | Store_cb_cache
  | Increment_client_id
  | Register_on_queues
  | Return_return_id

text \<open>
  \<^verbatim>\<open>_callback_cache.wlock([&](auto& cb_cache) {\<close> \<^verbatim>\<open>return_id = client_id;\<close>
  \<^verbatim>\<open>cb_cache[client_id] = std::tuple(agent, qcb, ccb);\<close> \<^verbatim>\<open>client_id++;\<close>
  \<^verbatim>\<open>_queues.wlock([&](auto& map) {\<close> the loop over the queues \<^verbatim>\<open>});\<close> \<^verbatim>\<open>});\<close>
  \<^verbatim>\<open>return return_id;\<close>
\<close>
definition add_callback_stmts :: "stmt list" where
  "add_callback_stmts =
     [Wlock callback_cache_lock,
      Load_return_id,
      Store_cb_cache,
      Increment_client_id,
      Wlock queues_lock,
      Register_on_queues,
      Unlock queues_lock,
      Unlock callback_cache_lock,
      Return_return_id]"

text \<open>The local \<^verbatim>\<open>return_id\<close>, not initialised at its declaration, and the value the
  call has returned, if it has.\<close>
record frame =
  return_id :: "ClientID option"
  returned :: "ClientID option"

datatype 'a outcome = Proceeds 'a | Waits_for lock | Reads_uninitialised

text \<open>One statement, run by a thread while other threads hold the locks \<open>others\<close>.\<close>
fun exec_stmt ::
  "lock set \<Rightarrow> rocprofiler_agent_t \<Rightarrow> 'q \<Rightarrow> 'c \<Rightarrow> stmt
     \<Rightarrow> frame \<times> ('q, 'c) QueueController \<Rightarrow> (frame \<times> ('q, 'c) QueueController) outcome" where
  "exec_stmt others agent qcb ccb (Wlock l) (f, st) =
     (if l \<in> others then Waits_for l else Proceeds (f, st))"
| "exec_stmt others agent qcb ccb (Unlock l) (f, st) = Proceeds (f, st)"
| "exec_stmt others agent qcb ccb Load_return_id (f, st) =
     Proceeds (f\<lparr>return_id := Some (client_id st)\<rparr>, st)"
| "exec_stmt others agent qcb ccb Store_cb_cache (f, st) =
     Proceeds (f, st\<lparr>callback_cache :=
                       AList.update (client_id st) (agent, qcb, ccb) (callback_cache st)\<rparr>)"
| "exec_stmt others agent qcb ccb Increment_client_id (f, st) =
     Proceeds (f, st\<lparr>client_id := client_id st + 1\<rparr>)"
| "exec_stmt others agent qcb ccb Register_on_queues (f, st) =
     (case return_id f of
        None \<Rightarrow> Reads_uninitialised
      | Some rid \<Rightarrow>
          Proceeds (f, st\<lparr>queues :=
            map (\<lambda>(ptr, queue).
                   if id_handle (agent_t (get_agent queue)) = id_handle agent
                   then (ptr, Queue_register_callback rid qcb ccb queue)
                   else (ptr, queue))
                (queues st)\<rparr>))"
| "exec_stmt others agent qcb ccb Return_return_id (f, st) =
     (case return_id f of
        None \<Rightarrow> Reads_uninitialised
      | Some rid \<Rightarrow> Proceeds (f\<lparr>returned := Some rid\<rparr>, st))"

text \<open>The statements a thread gets through while the other threads keep their locks:
  the result is what is left to run, the frame and the controller.\<close>
fun exec_stmts ::
  "lock set \<Rightarrow> rocprofiler_agent_t \<Rightarrow> 'q \<Rightarrow> 'c \<Rightarrow> stmt list
     \<Rightarrow> frame \<times> ('q, 'c) QueueController \<Rightarrow> stmt list \<times> frame \<times> ('q, 'c) QueueController" where
  "exec_stmts others agent qcb ccb [] s = ([], s)"
| "exec_stmts others agent qcb ccb (x # xs) s =
     (case exec_stmt others agent qcb ccb x s of
        Proceeds s' \<Rightarrow> exec_stmts others agent qcb ccb xs s'
      | Waits_for l \<Rightarrow> (x # xs, s)
      | Reads_uninitialised \<Rightarrow> (x # xs, s))"

definition add_callback_thread ::
  "lock set \<Rightarrow> rocprofiler_agent_t \<Rightarrow> 'q \<Rightarrow> 'c \<Rightarrow> ('q, 'c) QueueController
     \<Rightarrow> stmt list \<times> frame \<times> ('q, 'c) QueueController" where
  "add_callback_thread others agent qcb ccb st =
     exec_stmts others agent qcb ccb add_callback_stmts
       (\<lparr>return_id = None, returned = None\<rparr>, st)"

text \<open>The statements that read or write the counter \<^verbatim>\<open>client_id\<close>.\<close>
fun accesses_client_id :: "stmt \<Rightarrow> bool" where
  "accesses_client_id Load_return_id = True"
| "accesses_client_id Store_cb_cache = True"
| "accesses_client_id Increment_client_id = True"
| "accesses_client_id s = False"

text \<open>Each statement with the locks its thread holds when it runs.\<close>
fun held_at :: "lock list \<Rightarrow> stmt list \<Rightarrow> (stmt \<times> lock list) list" where
  "held_at held [] = []"
| "held_at held (Wlock l # xs) = (Wlock l, held) # held_at (l # held) xs"
| "held_at held (Unlock l # xs) = (Unlock l, held) # held_at (removeAll l held) xs"
| "held_at held (x # xs) = (x, held) # held_at held xs"

text \<open>Lock-free issuance in the words of the spec: "identifier issuance never blocks on
  table/registry contention", that is, whichever of the two locks other threads hold,
  the call returns an identifier.\<close>
definition lock_free_allocation ::
  "rocprofiler_agent_t \<Rightarrow> 'q \<Rightarrow> 'c \<Rightarrow> ('q, 'c) QueueController \<Rightarrow> bool" where
  "lock_free_allocation agent qcb ccb st \<longleftrightarrow>
     (\<forall>others \<in> {{}, {callback_cache_lock}, {queues_lock}, {callback_cache_lock, queues_lock}}.
        returned (fst (snd (add_callback_thread others agent qcb ccb st))) \<noteq> None)"

section \<open>Auxiliary notions for the proofs\<close>

text \<open>The effect of the backfill loop of \<^verbatim>\<open>add_queue\<close> on the queue it inserts.\<close>
definition backfill ::
  "handle_t \<Rightarrow> (ClientID \<times> rocprofiler_agent_t \<times> 'q \<times> 'c) list \<Rightarrow> ('q, 'c) Queue
     \<Rightarrow> ('q, 'c) Queue" where
  "backfill agent_id cbs q =
     fold (\<lambda>(cbid, agent, qcb, ccb) q.
             if id_handle agent = agent_id then Queue_register_callback cbid qcb ccb q else q)
          cbs q"

text \<open>The registry's entries for one agent: what the snapshot of a queue of that
  agent has to be.\<close>
definition entries_for ::
  "(ClientID \<times> rocprofiler_agent_t \<times> 'q \<times> 'c) list \<Rightarrow> handle_t \<Rightarrow> ClientID
     \<Rightarrow> ('q \<times> 'c) option" where
  "entries_for registry agent_id cbid =
     (case map_of registry cbid of
        None \<Rightarrow> None
      | Some (agent, qcb, ccb) \<Rightarrow> if id_handle agent = agent_id then Some (qcb, ccb) else None)"

definition snapshots_reflect_registry :: "('q, 'c) QueueController \<Rightarrow> bool" where
  "snapshots_reflect_registry st \<longleftrightarrow>
     (\<forall>(ptr, q) \<in> set (queues st). \<forall>cbid.
        map_of (callbacks q) cbid =
          entries_for (callback_cache st) (id_handle (agent_t (get_agent q))) cbid)"

definition controller_inv :: "('q, 'c) QueueController \<Rightarrow> bool" where
  "controller_inv st \<longleftrightarrow>
     distinct (map fst (callback_cache st)) \<and>
     (\<forall>k \<in> fst ` set (callback_cache st). k < client_id st) \<and>
     snapshots_reflect_registry st"

text \<open>The calls that return an identifier.\<close>
fun is_add_callback :: "('q, 'c) call \<Rightarrow> bool" where
  "is_add_callback (Add_callback agent qcb ccb) = True"
| "is_add_callback c = False"

text \<open>What the agent callback of \<^verbatim>\<open>init\<close> does for the agents from index \<open>i\<close> on.\<close>
fun agent_events ::
  "(rocprofiler_agent_t \<Rightarrow> nat \<Rightarrow> CoreApiTable \<Rightarrow> AmdExtTable \<Rightarrow> AgentCache option)
     \<Rightarrow> CoreApiTable \<Rightarrow> AmdExtTable \<Rightarrow> nat \<Rightarrow> rocprofiler_agent_t list \<Rightarrow> init_event list" where
  "agent_events ctor core ext i [] = []"
| "agent_events ctor core ext i (agent # rest) =
     (if agent_type agent = ROCPROFILER_AGENT_TYPE_GPU
      then (case ctor agent i core ext of
              Some cache \<Rightarrow> [AgentCache_constructor i]
            | None \<Rightarrow> [AgentCache_constructor i,
                       LOG_ERROR_GPU_Agent_Construction_Failed (id_handle agent)])
      else [])
     @ agent_events ctor core ext (Suc i) rest"

section \<open>A concrete process\<close>

text \<open>
  Four agents are enumerated: the accelerators A, D and B and a CPU. The capability data
  of D is insufficient, so the cache holds A and B. The calls register a callback for A,
  create a queue on A and one on B (through the hook), register a callback for B and a
  second one for A, and remove the first.
\<close>
definition agent_A :: rocprofiler_agent_t where
  "agent_A = \<lparr>id_handle = 1, agent_type = ROCPROFILER_AGENT_TYPE_GPU\<rparr>"

definition agent_B :: rocprofiler_agent_t where
  "agent_B = \<lparr>id_handle = 2, agent_type = ROCPROFILER_AGENT_TYPE_GPU\<rparr>"

definition agent_D :: rocprofiler_agent_t where
  "agent_D = \<lparr>id_handle = 4, agent_type = ROCPROFILER_AGENT_TYPE_GPU\<rparr>"

definition agent_cpu :: rocprofiler_agent_t where
  "agent_cpu = \<lparr>id_handle = 5, agent_type = ROCPROFILER_AGENT_TYPE_CPU\<rparr>"

definition example_agents :: "rocprofiler_agent_t list" where
  "example_agents = [agent_A, agent_cpu, agent_D, agent_B]"

definition example_ctor ::
  "rocprofiler_agent_t \<Rightarrow> nat \<Rightarrow> CoreApiTable \<Rightarrow> AmdExtTable \<Rightarrow> AgentCache option" where
  "example_ctor agent i core ext =
     (if id_handle agent = 4 then None
      else Some \<lparr>get_agent_handle = 10 * id_handle agent, agent_t = agent, index = i\<rparr>)"

definition cache_A :: AgentCache where
  "cache_A = \<lparr>get_agent_handle = 10, agent_t = agent_A, index = 0\<rparr>"

definition cache_B :: AgentCache where
  "cache_B = \<lparr>get_agent_handle = 20, agent_t = agent_B, index = 3\<rparr>"

definition example_core :: CoreApiTable where
  "example_core =
     \<lparr>hsa_queue_create_fn = runtime_create 4096, hsa_queue_destroy_fn = runtime_destroy 8192\<rparr>"

text \<open>Contexts that trace only the HSA API, and the same with one more context that
  buffers memory copies.\<close>
definition contexts_off :: "context_t list" where
  "contexts_off =
     [\<lparr>counter_collection = False,
       buffered_tracer = Some (\<lambda>d. d = ROCPROFILER_SERVICE_BUFFER_TRACING_HSA_API)\<rparr>,
      \<lparr>counter_collection = False, buffered_tracer = None\<rparr>]"

definition contexts_on :: "context_t list" where
  "contexts_on =
     contexts_off @
     [\<lparr>counter_collection = False,
       buffered_tracer = Some (\<lambda>d. d = ROCPROFILER_SERVICE_BUFFER_TRACING_MEMORY_COPY)\<rparr>]"

definition example_start :: "(nat, nat) QueueController" where
  "example_start =
     QueueController_default
       \<lparr>core_table := example_core, ext_table := AmdExtTable 12288,
        supported_agents := [(0, cache_A), (3, cache_B)]\<rparr>"

definition example_calls :: "(nat, nat) call list" where
  "example_calls =
     [Add_callback agent_A 7 8,
      Add_queue 100 (Some (new_Queue cache_A)),
      Create_queue 20 200,
      Add_callback agent_B 5 6,
      Add_callback agent_A 9 10,
      Remove_callback 1]"

definition example_state :: "(nat, nat) QueueController" where
  "example_state =
     example_start
       \<lparr>queues := [(100, \<lparr>get_agent = cache_A, callbacks = [(3, 9, 10)]\<rparr>),
                   (200, \<lparr>get_agent = cache_B, callbacks = [(2, 5, 6)]\<rparr>)],
        callback_cache := [(2, agent_B, 5, 6), (3, agent_A, 9, 10)],
        client_id := 4\<rparr>"

section \<open>The backfill of \<^verbatim>\<open>add_queue\<close>\<close>

lemma map_entry_update:
  "AList.map_entry k f (AList.update k v al) = AList.update k (f v) al"
  by (induction al) auto

lemma fold_map_entry:
  "fold (\<lambda>(cbid, agent, qcb, ccb) m.
           if id_handle agent = agent_id
           then AList.map_entry ptr (Queue_register_callback cbid qcb ccb) m
           else m) cbs (AList.update ptr q al)
   = AList.update ptr (backfill agent_id cbs q) al"
proof (induction cbs arbitrary: q)
  case Nil
  show ?case by (simp add: backfill_def)
next
  case (Cons e cbs)
  obtain cbid agent qcb ccb where e: "e = (cbid, agent, qcb, ccb)"
    by (cases e) auto
  show ?case
    by (simp add: e map_entry_update Cons.IH backfill_def)
qed

lemma add_queue_eq:
  "add_queue ptr (Some q) st =
     Inr (st\<lparr>queues := AList.update ptr
            (backfill (id_handle (agent_t (get_agent q))) (callback_cache st) q) (queues st)\<rparr>)"
  by (simp add: add_queue_def Let_def fold_map_entry)

lemma get_agent_backfill [simp]: "get_agent (backfill a cbs q) = get_agent q"
  by (induction cbs arbitrary: q)
     (auto simp: backfill_def Queue_register_callback_def split: prod.splits)

lemma map_of_callbacks_backfill:
  "distinct (map fst cbs) \<Longrightarrow>
   map_of (callbacks (backfill a cbs q)) cbid =
     (case entries_for cbs a cbid of None \<Rightarrow> map_of (callbacks q) cbid | Some cb \<Rightarrow> Some cb)"
proof (induction cbs arbitrary: q)
  case Nil
  show ?case by (simp add: backfill_def entries_for_def)
next
  case (Cons e cbs)
  obtain k agent qcb ccb where e: "e = (k, agent, qcb, ccb)"
    by (cases e) auto
  let ?q' = "if id_handle agent = a then Queue_register_callback k qcb ccb q else q"
  have step: "backfill a (e # cbs) q = backfill a cbs ?q'"
    by (simp add: backfill_def e)
  have ih: "map_of (callbacks (backfill a cbs ?q')) cbid =
     (case entries_for cbs a cbid of None \<Rightarrow> map_of (callbacks ?q') cbid | Some cb \<Rightarrow> Some cb)"
    using Cons.prems by (intro Cons.IH) simp
  have notin: "map_of cbs k = None"
    using Cons.prems by (simp add: e map_of_eq_None_iff)
  show ?case
  proof (cases "cbid = k")
    case True
    then show ?thesis
      unfolding step ih
      by (simp add: entries_for_def notin e Queue_register_callback_def update_conv')
  next
    case False
    then show ?thesis
      unfolding step ih
      by (simp add: entries_for_def e Queue_register_callback_def update_conv'
            split: option.splits)
  qed
qed

section \<open>The registry invariant\<close>

lemma set_update_subset: "set (AList.update k v al) \<subseteq> insert (k, v) (set al)"
  by (induction al) auto

lemma set_delete_subset: "set (AList.delete k al) \<subseteq> set al"
  by (auto simp: AList.delete_eq)

lemma entries_for_update:
  "entries_for (AList.update k (agent, qcb, ccb) reg) a cbid =
     (if cbid = k then (if id_handle agent = a then Some (qcb, ccb) else None)
      else entries_for reg a cbid)"
  by (simp add: entries_for_def update_conv')

lemma entries_for_delete:
  "entries_for (AList.delete k reg) a cbid = (if cbid = k then None else entries_for reg a cbid)"
  by (simp add: entries_for_def delete_conv')

lemma entries_for_notin:
  "cbid \<notin> fst ` set reg \<Longrightarrow> entries_for reg a cbid = None"
proof -
  assume "cbid \<notin> fst ` set reg"
  then have "map_of reg cbid = None" by (simp add: map_of_eq_None_iff)
  then show ?thesis by (simp add: entries_for_def)
qed

lemma inv_add_queue:
  assumes inv: "controller_inv st" and fresh: "callbacks q = []"
    and res: "add_queue ptr (Some q) st = Inr st'"
  shows "controller_inv st'"
proof -
  let ?a = "id_handle (agent_t (get_agent q))"
  let ?q' = "backfill ?a (callback_cache st) q"
  have st': "st' = st\<lparr>queues := AList.update ptr ?q' (queues st)\<rparr>"
    using res by (simp add: add_queue_eq)
  have dist: "distinct (map fst (callback_cache st))"
    using inv by (simp add: controller_inv_def)
  have new: "map_of (callbacks ?q') cbid = entries_for (callback_cache st) ?a cbid" for cbid
    by (simp add: map_of_callbacks_backfill [OF dist] fresh split: option.splits)
  have "snapshots_reflect_registry st'"
    unfolding snapshots_reflect_registry_def
  proof (intro ballI, clarify)
    fix p r cbid
    assume "(p, r) \<in> set (queues st')"
    then have "(p, r) = (ptr, ?q') \<or> (p, r) \<in> set (queues st)"
      using set_update_subset [of ptr ?q' "queues st"] by (auto simp: st')
    then show "map_of (callbacks r) cbid =
        entries_for (callback_cache st') (id_handle (agent_t (get_agent r))) cbid"
    proof
      assume "(p, r) = (ptr, ?q')"
      then show ?thesis by (simp add: new st')
    next
      assume "(p, r) \<in> set (queues st)"
      then show ?thesis
        using inv by (auto simp: controller_inv_def snapshots_reflect_registry_def st')
    qed
  qed
  then show ?thesis
    using inv by (simp add: controller_inv_def st')
qed

lemma inv_destory_queue:
  assumes inv: "controller_inv st"
  shows "controller_inv (destory_queue ptr st)"
  using inv set_delete_subset [of ptr "queues st"]
  by (fastforce simp: controller_inv_def snapshots_reflect_registry_def destory_queue_def)

lemma inv_add_callback:
  assumes inv: "controller_inv st"
  shows "controller_inv (snd (add_callback agent qcb ccb st))"
proof -
  let ?k = "client_id st"
  let ?reg = "AList.update ?k (agent, qcb, ccb) (callback_cache st)"
  have fresh: "?k \<notin> fst ` set (callback_cache st)"
    using inv by (auto simp: controller_inv_def)
  have dist: "distinct (map fst ?reg)"
    using inv by (simp add: controller_inv_def distinct_update)
  have bound: "\<forall>k \<in> fst ` set ?reg. k < ?k + 1"
    using inv by (auto simp: controller_inv_def dom_update)
  have old: "map_of (callbacks r) c =
      entries_for (callback_cache st) (id_handle (agent_t (get_agent r))) c"
    if "(p, r) \<in> set (queues st)" for p r c
    using inv that by (auto simp: controller_inv_def snapshots_reflect_registry_def)
  have none: "map_of (callbacks r) ?k = None" if "(p, r) \<in> set (queues st)" for p r
    by (simp add: old [OF that] entries_for_notin [OF fresh])
  have hit: "map_of (callbacks (Queue_register_callback ?k qcb ccb r)) cbid =
      entries_for ?reg (id_handle (agent_t (get_agent (Queue_register_callback ?k qcb ccb r)))) cbid"
    if "(p, r) \<in> set (queues st)" "id_handle (agent_t (get_agent r)) = id_handle agent"
    for p r cbid
    using that(2)
    by (simp add: entries_for_update Queue_register_callback_def update_conv' old [OF that(1)])
  have miss: "map_of (callbacks r) cbid =
      entries_for ?reg (id_handle (agent_t (get_agent r))) cbid"
    if "(p, r) \<in> set (queues st)" "id_handle (agent_t (get_agent r)) \<noteq> id_handle agent"
    for p r cbid
    using that(2) none [OF that(1)]
    by (simp add: entries_for_update old [OF that(1)])
  have "snapshots_reflect_registry (snd (add_callback agent qcb ccb st))"
    unfolding snapshots_reflect_registry_def
    using hit miss by (auto simp: add_callback_def Let_def split: if_splits)
  then show ?thesis
    using dist bound by (simp add: controller_inv_def add_callback_def Let_def)
qed

lemma inv_remove_callback:
  assumes inv: "controller_inv st"
  shows "controller_inv (remove_callback cbid st)"
proof -
  have dist: "distinct (map fst (AList.delete cbid (callback_cache st)))"
    using inv by (simp add: controller_inv_def distinct_delete)
  have bound: "\<forall>k \<in> fst ` set (AList.delete cbid (callback_cache st)). k < client_id st"
    using inv set_delete_subset [of cbid "callback_cache st"]
    by (fastforce simp: controller_inv_def)
  have "snapshots_reflect_registry (remove_callback cbid st)"
    using inv
    by (auto simp: controller_inv_def snapshots_reflect_registry_def remove_callback_def
          Queue_remove_callback_def entries_for_delete delete_conv')
  then show ?thesis
    using dist bound by (simp add: controller_inv_def remove_callback_def)
qed

lemma create_queue_loop_cases:
  "create_queue_loop agents agent ptr st = Inr (status, st') \<Longrightarrow>
   status = HSA_STATUS_SUCCESS \<and>
   (\<exists>k agent_info. (k, agent_info) \<in> set agents \<and> get_agent_handle agent_info = agent \<and>
      add_queue ptr (Some (new_Queue agent_info)) st = Inr st')"
proof (induction agents)
  case Nil
  then show ?case by simp
next
  case (Cons e agents)
  obtain k agent_info where e: "e = (k, agent_info)" by (cases e) auto
  show ?case
  proof (cases "get_agent_handle agent_info = agent")
    case True
    with Cons.prems show ?thesis
      by (auto simp: e split: sum.splits)
  next
    case False
    with Cons show ?thesis
      by (fastforce simp: e)
  qed
qed

lemma inv_create_queue:
  assumes inv: "controller_inv st" and res: "create_queue agent ptr st = Inr (status, st')"
  shows "controller_inv st'"
proof -
  obtain agent_info :: AgentCache where
    "add_queue ptr (Some (new_Queue agent_info)) st = Inr st'"
    using create_queue_loop_cases [of "supported_agents st" agent ptr st status st'] res
    by (auto simp: create_queue_def)
  then show ?thesis
    using inv by (rule inv_add_queue [rotated 2]) (simp_all add: new_Queue_def)
qed

lemma inv_step:
  assumes "controller_inv st" "fresh_queue_arg c" "step c st = Inr (ids, st')"
  shows "controller_inv st'"
proof (cases c)
  case (Add_queue ptr queue)
  then show ?thesis
    using assms inv_add_queue [of st _ ptr st']
    by (cases queue) (auto simp: add_queue_def split: sum.splits)
next
  case (Destory_queue ptr)
  then show ?thesis using assms by (auto simp: inv_destory_queue)
next
  case (Add_callback agent qcb ccb)
  then show ?thesis
    using assms inv_add_callback [of st agent qcb ccb] by (auto split: prod.splits)
next
  case (Remove_callback cbid)
  then show ?thesis using assms by (auto simp: inv_remove_callback)
next
  case (Create_queue agent ptr)
  then show ?thesis
    using assms inv_create_queue [of st agent ptr _ st'] by (auto split: sum.splits)
qed

lemma inv_run:
  "controller_inv st \<Longrightarrow> list_all fresh_queue_arg cs \<Longrightarrow> run cs st = Inr (ids, st') \<Longrightarrow>
   controller_inv st'"
proof (induction cs arbitrary: st ids)
  case Nil
  then show ?case by simp
next
  case (Cons c cs)
  from Cons.prems(3) obtain ids1 st1 ids2 where
    s: "step c st = Inr (ids1, st1)" and r: "run cs st1 = Inr (ids2, st')"
    by (auto split: sum.splits)
  have "controller_inv st1"
    using Cons.prems(1,2) s by (auto intro: inv_step)
  then show ?case
    using Cons.IH [OF _ _ r] Cons.prems(2) by simp
qed

section \<open>Runs and identifiers\<close>

lemma inv_fresh_controller:
  "queues st = [] \<Longrightarrow> callback_cache st = [] \<Longrightarrow> controller_inv st"
  by (simp add: controller_inv_def snapshots_reflect_registry_def)

lemma add_callback_installs:
  "\<forall>(ptr, q) \<in> set (queues (snd (add_callback agent qcb ccb st))).
     id_handle (agent_t (get_agent q)) = id_handle agent \<longrightarrow>
     map_of (callbacks q) (fst (add_callback agent qcb ccb st)) = Some (qcb, ccb)"
  by (auto simp: add_callback_def Let_def Queue_register_callback_def update_conv'
        split: if_splits)

lemma remove_callback_removes:
  "\<forall>(ptr, q) \<in> set (queues (remove_callback cbid st)). map_of (callbacks q) cbid = None"
  by (auto simp: remove_callback_def Queue_remove_callback_def delete_conv')

lemma add_queue_backfills:
  assumes "distinct (map fst (callback_cache st))"
    and "map_of (callback_cache st) cbid = Some (agent, qcb, ccb)"
    and "id_handle agent = id_handle (agent_t (get_agent q))"
  shows "\<exists>st' q'. add_queue ptr (Some q) st = Inr st' \<and> map_of (queues st') ptr = Some q' \<and>
           map_of (callbacks q') cbid = Some (qcb, ccb)"
  using assms
  by (simp add: add_queue_eq update_conv' map_of_callbacks_backfill entries_for_def)

lemma step_ids:
  "step c st = Inr (ids, st') \<Longrightarrow>
   ids = (if is_add_callback c then [client_id st] else []) \<and>
   client_id st' = client_id st + length ids"
proof (cases c)
  case (Add_queue ptr queue)
  then show "step c st = Inr (ids, st') \<Longrightarrow> ?thesis"
    by (cases queue) (auto simp: add_queue_eq add_queue_def)
next
  case (Create_queue agent ptr)
  assume s: "step c st = Inr (ids, st')"
  then obtain status where "create_queue agent ptr st = Inr (status, st')" and "ids = []"
    using Create_queue by (auto split: sum.splits)
  then show ?thesis
    using create_queue_loop_cases [of "supported_agents st" agent ptr st status st'] Create_queue
    by (auto simp: create_queue_def add_queue_eq)
qed (auto simp: destory_queue_def add_callback_def Let_def remove_callback_def)

lemma upt_add_Suc: "[a ..< a + Suc n] = a # [Suc a ..< Suc a + n]"
  by (simp add: upt_conv_Cons)

lemma run_ids:
  "run cs st = Inr (ids, st') \<Longrightarrow>
   ids = [client_id st ..< client_id st + length (filter is_add_callback cs)] \<and>
   client_id st' = client_id st + length (filter is_add_callback cs)"
proof (induction cs arbitrary: st ids)
  case Nil
  then show ?case by simp
next
  case (Cons c cs)
  from Cons.prems obtain ids1 st1 ids2 where
    s: "step c st = Inr (ids1, st1)" and r: "run cs st1 = Inr (ids2, st')"
    and ids: "ids = ids1 @ ids2"
    by (auto split: sum.splits)
  note s' = step_ids [OF s] and r' = Cons.IH [OF r]
  show ?case
  proof (cases "is_add_callback c")
    case True
    then have "ids1 = [client_id st]" "client_id st1 = Suc (client_id st)"
      using s' by simp_all
    then show ?thesis
      using r' ids True upt_add_Suc [of "client_id st" "length (filter is_add_callback cs)"]
      by simp
  next
    case False
    then show ?thesis
      using s' r' ids by simp
  qed
qed

lemma registry_keys_run:
  "run cs st = Inr (ids, st') \<Longrightarrow>
   fst ` set (callback_cache st') \<subseteq> fst ` set (callback_cache st) \<union> set ids"
proof (induction cs arbitrary: st ids)
  case Nil
  then show ?case by simp
next
  case (Cons c cs)
  from Cons.prems obtain ids1 st1 ids2 where
    s: "step c st = Inr (ids1, st1)" and r: "run cs st1 = Inr (ids2, st')"
    and ids: "ids = ids1 @ ids2"
    by (auto split: sum.splits)
  have "fst ` set (callback_cache st1) \<subseteq> fst ` set (callback_cache st) \<union> set ids1"
  proof (cases c)
    case (Add_queue ptr queue)
    then show ?thesis
      using s by (cases queue) (auto simp: add_queue_eq add_queue_def)
  next
    case (Destory_queue ptr)
    then show ?thesis using s by (auto simp: destory_queue_def)
  next
    case (Add_callback agent qcb ccb)
    then have "callback_cache st1 = AList.update (client_id st) (agent, qcb, ccb) (callback_cache st)"
      and "ids1 = [client_id st]"
      using s by (auto simp: add_callback_def Let_def)
    then show ?thesis
      by (simp add: dom_update)
  next
    case (Remove_callback cbid)
    then show ?thesis
      using s set_delete_subset [of cbid "callback_cache st"]
      by (auto simp: remove_callback_def)
  next
    case (Create_queue agent ptr)
    then obtain status where "create_queue agent ptr st = Inr (status, st1)"
      using s by (auto split: sum.splits)
    then show ?thesis
      using create_queue_loop_cases [of "supported_agents st" agent ptr st status st1]
      by (auto simp: create_queue_def add_queue_eq)
  qed
  then show ?case
    using Cons.IH [OF r] unfolding ids set_append by blast
qed

lemma remove_callback_absent:
  assumes inv: "snapshots_reflect_registry st" and absent: "cbid \<notin> fst ` set (callback_cache st)"
  shows "remove_callback cbid st = st"
proof -
  have "Queue_remove_callback cbid q = q" if "(ptr, q) \<in> set (queues st)" for ptr q
  proof -
    have "map_of (callbacks q) cbid = None"
      using inv that entries_for_notin [OF absent]
      by (auto simp: snapshots_reflect_registry_def)
    then have "cbid \<notin> fst ` set (callbacks q)"
      by (simp add: map_of_eq_None_iff)
    then show ?thesis
      by (simp add: Queue_remove_callback_def)
  qed
  then have "map (\<lambda>(ptr, queue). (ptr, Queue_remove_callback cbid queue)) (queues st) = queues st"
    by (intro map_idI) auto
  then show ?thesis
    using absent by (simp add: remove_callback_def)
qed

lemma remove_callback_idem:
  "remove_callback cbid (remove_callback cbid st) = remove_callback cbid st"
proof -
  have "Queue_remove_callback cbid (Queue_remove_callback cbid q) = Queue_remove_callback cbid q"
    for q :: "('a, 'b) Queue"
    by (simp add: Queue_remove_callback_def delete_idem)
  then show ?thesis
    by (simp add: remove_callback_def delete_idem comp_def case_prod_unfold)
qed

section \<open>The create-queue hook\<close>

lemma create_queue_loop_unknown:
  "agent \<notin> get_agent_handle ` snd ` set agents \<Longrightarrow>
   create_queue_loop agents agent ptr st = Inl (LOG_FATAL_Could_not_find_agent agent)"
  by (induction agents) (auto simp: image_iff)

lemma create_queue_loop_known:
  "agent \<in> get_agent_handle ` snd ` set agents \<Longrightarrow>
   \<exists>st' agent_info. create_queue_loop agents agent ptr st = Inr (HSA_STATUS_SUCCESS, st') \<and>
      agent_info \<in> snd ` set agents \<and> get_agent_handle agent_info = agent \<and>
      add_queue ptr (Some (new_Queue agent_info)) st = Inr st'"
proof (induction agents)
  case Nil
  then show ?case by simp
next
  case (Cons e agents)
  obtain k agent_info where e: "e = (k, agent_info)" by (cases e) auto
  show ?case
  proof (cases "get_agent_handle agent_info = agent")
    case True
    then show ?thesis
      by (auto simp: e add_queue_eq)
  next
    case False
    then have "agent \<in> get_agent_handle ` snd ` set agents"
      using Cons.prems by (auto simp: e)
    from Cons.IH [OF this] False show ?thesis
      by (auto simp: e)
  qed
qed

section \<open>Initialisation: the policy and the agent cache\<close>

lemma enable_intercepter_iff: "enable_intercepter contexts \<longleftrightarrow> interception_required contexts"
  by (induction contexts) (auto simp: interception_required_def split: option.splits)

lemma snd_agents_callback:
  "snd (agents_callback ctor core ext i agents (cached, ev)) = ev @ agent_events ctor core ext i agents"
  by (induction agents arbitrary: i cached ev) (auto split: option.splits)

lemma ctor_event_iff:
  "AgentCache_constructor j \<in> set (agent_events ctor core ext i agents) \<longleftrightarrow>
     i \<le> j \<and> j < i + length agents \<and> agent_type (agents ! (j - i)) = ROCPROFILER_AGENT_TYPE_GPU"
proof (induction agents arbitrary: i)
  case Nil
  show ?case by simp
next
  case (Cons a agents)
  note ih = Cons.IH [of "Suc i"]
  show ?case
  proof (cases "j = i")
    case True
    have "AgentCache_constructor j \<notin> set (agent_events ctor core ext (Suc i) agents)"
      using ih True by simp
    then show ?thesis
      using True by (auto split: option.splits)
  next
    case False
    then have "(j - i) = Suc (j - Suc i)" if "i \<le> j" using that by simp
    then show ?thesis
      using False ih by (auto split: option.splits)
  qed
qed

lemma log_event_iff:
  "LOG_ERROR_GPU_Agent_Construction_Failed h \<in> set (agent_events ctor core ext i agents) \<longleftrightarrow>
     (\<exists>j < length agents. agent_type (agents ! j) = ROCPROFILER_AGENT_TYPE_GPU \<and>
        ctor (agents ! j) (i + j) core ext = None \<and> id_handle (agents ! j) = h)"
proof (induction agents arbitrary: i)
  case Nil
  show ?case by simp
next
  case (Cons a agents)
  have split: "(\<exists>j < length (a # agents). P j) \<longleftrightarrow> P 0 \<or> (\<exists>j < length agents. P (Suc j))"
    for P :: "nat \<Rightarrow> bool"
    by (auto simp: less_Suc_eq_0_disj)
  show ?case
    unfolding split by (auto simp: Cons.IH split: option.splits)
qed

lemma map_of_emplace:
  "map_of (emplace k v al) k' =
     (if map_of al k' = None \<and> k' = k then Some v else map_of al k')"
  by (auto simp: emplace_def map_add_def split: option.splits)

lemma unat_word_of_nat_32: "i < 2 ^ 32 \<Longrightarrow> unat (word_of_nat i :: 32 word) = i"
  by (simp add: unat_of_nat)

lemma fst_agents_callback:
  assumes "i + length agents \<le> 2 ^ 32"
    and "\<forall>k. map_of cached k \<noteq> None \<longrightarrow> unat k < i"
  shows "map_of (fst (agents_callback ctor core ext i agents (cached, ev))) k =
           (if unat k < i then map_of cached k
            else if unat k < i + length agents \<and>
                    agent_type (agents ! (unat k - i)) = ROCPROFILER_AGENT_TYPE_GPU
                 then ctor (agents ! (unat k - i)) (unat k) core ext
                 else None)"
  using assms
proof (induction agents arbitrary: i cached ev)
  case Nil
  then show ?case
    by (cases "map_of cached k") auto
next
  case (Cons a agents)
  have i: "i < 2 ^ 32" using Cons.prems(1) by simp
  have ui: "unat (word_of_nat i :: 32 word) = i" by (rule unat_word_of_nat_32 [OF i])
  have none: "map_of cached (word_of_nat i) = None"
    using Cons.prems(2) ui by (metis less_irrefl)
  have below: "map_of cached k = None" if "\<not> unat k < i"
    using Cons.prems(2) that by blast
  have diff: "unat k - i = Suc (unat k - Suc i)" if "i < unat k" using that by simp
  show ?case
  proof (cases "agent_type a = ROCPROFILER_AGENT_TYPE_GPU")
    case False
    have ih: "map_of (fst (agents_callback ctor core ext (Suc i) agents (cached, ev))) k =
           (if unat k < Suc i then map_of cached k
            else if unat k < Suc i + length agents \<and>
                    agent_type (agents ! (unat k - Suc i)) = ROCPROFILER_AGENT_TYPE_GPU
                 then ctor (agents ! (unat k - Suc i)) (unat k) core ext
                 else None)"
      using Cons.prems by (intro Cons.IH) (auto intro: less_SucI)
    show ?thesis
      using False below diff by (auto simp: ih less_Suc_eq)
  next
    case True
    show ?thesis
    proof (cases "ctor a i core ext")
      case None
      have ih: "map_of (fst (agents_callback ctor core ext (Suc i) agents
                 (cached, ev @ [AgentCache_constructor i,
                             LOG_ERROR_GPU_Agent_Construction_Failed (id_handle a)]))) k =
           (if unat k < Suc i then map_of cached k
            else if unat k < Suc i + length agents \<and>
                    agent_type (agents ! (unat k - Suc i)) = ROCPROFILER_AGENT_TYPE_GPU
                 then ctor (agents ! (unat k - Suc i)) (unat k) core ext
                 else None)"
        using Cons.prems by (intro Cons.IH) (auto intro: less_SucI)
      show ?thesis
        using True None below diff by (auto simp: ih less_Suc_eq)
    next
      case (Some cache)
      let ?cached = "emplace (word_of_nat i) cache cached"
      have bound: "\<forall>k. map_of ?cached k \<noteq> None \<longrightarrow> unat k < Suc i"
        using Cons.prems(2) ui by (auto simp: map_of_emplace intro: less_SucI split: if_splits)
      have ih: "map_of (fst (agents_callback ctor core ext (Suc i) agents
                 (?cached, ev @ [AgentCache_constructor i]))) k =
           (if unat k < Suc i then map_of ?cached k
            else if unat k < Suc i + length agents \<and>
                    agent_type (agents ! (unat k - Suc i)) = ROCPROFILER_AGENT_TYPE_GPU
                 then ctor (agents ! (unat k - Suc i)) (unat k) core ext
                 else None)"
        using Cons.prems(1) bound by (intro Cons.IH) auto
      have at_i: "map_of ?cached k = Some cache" if "unat k = i"
      proof -
        have "k = word_of_nat i" using that by (simp add: word_unat_eq_iff ui)
        then show ?thesis by (simp add: map_of_emplace none)
      qed
      have other: "map_of ?cached k = map_of cached k" if "unat k \<noteq> i"
        using that ui by (auto simp: map_of_emplace)
      show ?thesis
        using True Some below diff at_i other by (auto simp: ih less_Suc_eq)
    qed
  qed
qed

lemma init_eq:
  "init ctor agents contexts core ext st =
     (if enable_intercepter contexts
      then core\<lparr>hsa_queue_create_fn := create_queue_hook,
                hsa_queue_destroy_fn := destroy_queue_hook\<rparr>
      else core,
      st\<lparr>core_table := core, ext_table := ext,
         supported_agents :=
           fst (agents_callback ctor core ext 0 agents (supported_agents st, []))\<rparr>,
      snd (agents_callback ctor core ext 0 agents (supported_agents st, [])))"
  by (simp add: init_def Let_def case_prod_unfold)

lemma app_step_native:
  assumes "hsa_queue_create_fn tbl \<noteq> create_queue_hook" and "queues st = []"
  shows "\<exists>st'. app_step tbl c st = Inr st' \<and> queues st' = []"
proof (cases c)
  case (Hsa_queue_create agent ptr)
  then show ?thesis
    using assms by (cases "hsa_queue_create_fn tbl") simp_all
next
  case (Hsa_queue_destroy ptr)
  then show ?thesis
    using assms
    by (cases "hsa_queue_destroy_fn tbl") (simp_all add: destroy_queue_def destory_queue_def)
qed

lemma app_run_native:
  assumes "hsa_queue_create_fn tbl \<noteq> create_queue_hook"
  shows "queues st = [] \<Longrightarrow> \<exists>st'. app_run tbl calls st = Inr st' \<and> queues st' = []"
proof (induction calls arbitrary: st)
  case Nil
  then show ?case by simp
next
  case (Cons c calls)
  from app_step_native [OF assms Cons.prems, of c] obtain st1 where
    "app_step tbl c st = Inr st1" "queues st1 = []" by blast
  then show ?case
    using Cons.IH [of st1] by simp
qed

section \<open>The statements of \<^verbatim>\<open>add_callback\<close> and its locks\<close>

lemma thread_free:
  "callback_cache_lock \<notin> others \<Longrightarrow> queues_lock \<notin> others \<Longrightarrow>
   add_callback_thread others agent qcb ccb st =
     ([], \<lparr>return_id = Some (fst (add_callback agent qcb ccb st)),
           returned = Some (fst (add_callback agent qcb ccb st))\<rparr>,
      snd (add_callback agent qcb ccb st))"
  by (simp add: add_callback_thread_def add_callback_stmts_def add_callback_def Let_def)

lemma thread_registry_busy:
  "callback_cache_lock \<in> others \<Longrightarrow>
   add_callback_thread others agent qcb ccb st =
     (add_callback_stmts, \<lparr>return_id = None, returned = None\<rparr>, st)"
  by (simp add: add_callback_thread_def add_callback_stmts_def)

lemma thread_table_busy:
  "callback_cache_lock \<notin> others \<Longrightarrow> queues_lock \<in> others \<Longrightarrow>
   add_callback_thread others agent qcb ccb st =
     (drop 4 add_callback_stmts, \<lparr>return_id = Some (client_id st), returned = None\<rparr>,
      st\<lparr>callback_cache := AList.update (client_id st) (agent, qcb, ccb) (callback_cache st),
         client_id := client_id st + 1\<rparr>)"
  by (simp add: add_callback_thread_def add_callback_stmts_def)

lemma client_id_accesses_locked: "\<forall>(s, held) \<in> set (held_at [] add_callback_stmts).
     accesses_client_id s \<longrightarrow> callback_cache_lock \<in> set held"
  by (simp add: add_callback_stmts_def)

section \<open>The concrete process evaluated\<close>

lemmas example_defs =
  example_calls_def example_start_def example_state_def example_core_def
  example_agents_def example_ctor_def contexts_off_def contexts_on_def
  QueueController_default_def agent_A_def agent_B_def agent_D_def agent_cpu_def
  cache_A_def cache_B_def

lemma example_init:
  "init example_ctor example_agents contexts_off example_core (AmdExtTable 12288)
     (QueueController_default :: (nat, nat) QueueController) =
   (example_core, example_start,
    [AgentCache_constructor 0, AgentCache_constructor 2,
     LOG_ERROR_GPU_Agent_Construction_Failed 4, AgentCache_constructor 3])"
  by (simp add: init_def example_defs emplace_def Let_def)

lemma example_init_on:
  "init example_ctor example_agents contexts_on example_core (AmdExtTable 12288)
     (QueueController_default :: (nat, nat) QueueController) =
   (\<lparr>hsa_queue_create_fn = create_queue_hook, hsa_queue_destroy_fn = destroy_queue_hook\<rparr>,
    example_start,
    [AgentCache_constructor 0, AgentCache_constructor 2,
     LOG_ERROR_GPU_Agent_Construction_Failed 4, AgentCache_constructor 3])"
  by (simp add: init_def example_defs emplace_def Let_def)

lemma example_run: "run example_calls example_start = Inr ([1, 2, 3], example_state)"
  by (simp add: example_defs add_callback_def add_queue_def create_queue_def
        remove_callback_def Queue_register_callback_def Queue_remove_callback_def
        new_Queue_def Let_def)

lemma example_fresh:
  "queues example_start = []" "callback_cache example_start = []"
  "client_id example_start = 1" "list_all fresh_queue_arg example_calls"
  by (simp_all add: example_defs new_Queue_def)

section \<open>The claims\<close>

text \<open>
  C1. After every sequence of calls of \<^verbatim>\<open>add_queue\<close>, \<^verbatim>\<open>add_callback\<close> and
  \<^verbatim>\<open>remove_callback\<close> (and of \<^verbatim>\<open>destory_queue\<close> and the create-queue hook) on a controller
  that starts with no queue and no callback, every queue of the live-queue table has a
  snapshot that contains exactly the registry entries whose agent is the queue's agent.
  From the state reached, \<^verbatim>\<open>add_queue\<close> backfills every matching registry entry into
  the queue it inserts, \<^verbatim>\<open>add_callback\<close> installs the new entry on every matching live
  queue, and \<^verbatim>\<open>remove_callback\<close> leaves no snapshot that contains the removed identifier.
  The queues handed to \<^verbatim>\<open>add_queue\<close> are new ones, as in the create-queue hook.
\<close>
theorem snapshots_reflect_registry_after_calls:
  assumes "queues st = []" and "callback_cache st = []"
    and "list_all fresh_queue_arg cs"
    and "run cs st = Inr (ids, st')"
  shows "snapshots_reflect_registry st' \<and>
         (\<forall>ptr q cbid agent qcb ccb.
            map_of (callback_cache st') cbid = Some (agent, qcb, ccb) \<and>
            id_handle agent = id_handle (agent_t (get_agent q)) \<longrightarrow>
            (\<exists>st'' q'. add_queue ptr (Some q) st' = Inr st'' \<and>
               map_of (queues st'') ptr = Some q' \<and>
               map_of (callbacks q') cbid = Some (qcb, ccb))) \<and>
         (\<forall>agent qcb ccb. \<forall>(ptr, q) \<in> set (queues (snd (add_callback agent qcb ccb st'))).
            id_handle (agent_t (get_agent q)) = id_handle agent \<longrightarrow>
            map_of (callbacks q) (fst (add_callback agent qcb ccb st')) = Some (qcb, ccb)) \<and>
         (\<forall>cbid. \<forall>(ptr, q) \<in> set (queues (remove_callback cbid st')).
            map_of (callbacks q) cbid = None)"
proof -
  have inv: "controller_inv st'"
    using inv_run [OF inv_fresh_controller [OF assms(1,2)] assms(3,4)] .
  then have dist: "distinct (map fst (callback_cache st'))"
    by (simp add: controller_inv_def)
  have "snapshots_reflect_registry st'"
    using inv by (simp add: controller_inv_def)
  moreover have "\<forall>ptr q cbid agent qcb ccb.
            map_of (callback_cache st') cbid = Some (agent, qcb, ccb) \<and>
            id_handle agent = id_handle (agent_t (get_agent q)) \<longrightarrow>
            (\<exists>st'' q'. add_queue ptr (Some q) st' = Inr st'' \<and>
               map_of (queues st'') ptr = Some q' \<and>
               map_of (callbacks q') cbid = Some (qcb, ccb))"
    using add_queue_backfills [OF dist] by blast
  ultimately show ?thesis
    using add_callback_installs [of _ _ _ st'] remove_callback_removes [of _ st']
    by blast
qed

theorem snapshots_reflect_registry_after_calls_witness:
  "queues example_start = [] \<and> callback_cache example_start = [] \<and>
   list_all fresh_queue_arg example_calls \<and>
   run example_calls example_start = Inr ([1, 2, 3], example_state) \<and>
   snapshots_reflect_registry example_state"
  using snapshots_reflect_registry_after_calls [OF example_fresh(1,2,4) example_run]
    example_fresh example_run
  by simp

text \<open>
  C2. \<^verbatim>\<open>init\<close> writes its hooks into the queue-create and queue-destroy slots of the
  runtime's table if and only if some registered context has counter collection, or has
  buffered tracing for the kernel-dispatch or the memory-copy domain. Otherwise the table
  is left as it was, and then no sequence of queue creations and destructions by the
  application puts a queue into the live-queue table.
\<close>
theorem init_installs_hooks_iff_required:
  assumes "init ctor agents contexts core ext st = (core', st', events)"
  shows "core' = (if interception_required contexts
                  then core\<lparr>hsa_queue_create_fn := create_queue_hook,
                            hsa_queue_destroy_fn := destroy_queue_hook\<rparr>
                  else core) \<and>
         (hsa_queue_create_fn core \<noteq> create_queue_hook \<longrightarrow>
            (hsa_queue_create_fn core' = create_queue_hook \<longleftrightarrow> interception_required contexts)) \<and>
         (hsa_queue_destroy_fn core \<noteq> destroy_queue_hook \<longrightarrow>
            (hsa_queue_destroy_fn core' = destroy_queue_hook \<longleftrightarrow> interception_required contexts)) \<and>
         queues st' = queues st \<and>
         (\<not> interception_required contexts \<and> hsa_queue_create_fn core \<noteq> create_queue_hook \<and>
          queues st = [] \<longrightarrow>
            (\<forall>calls. \<exists>st''. app_run core' calls st' = Inr st'' \<and> queues st'' = []))"
proof -
  have core': "core' = (if interception_required contexts
                  then core\<lparr>hsa_queue_create_fn := create_queue_hook,
                            hsa_queue_destroy_fn := destroy_queue_hook\<rparr>
                  else core)"
    and q: "queues st' = queues st"
    using assms by (auto simp: init_eq enable_intercepter_iff)
  have "\<exists>st''. app_run core' calls st' = Inr st'' \<and> queues st'' = []"
    if "\<not> interception_required contexts" "hsa_queue_create_fn core \<noteq> create_queue_hook"
      "queues st = []" for calls
    using that core' q by (intro app_run_native) simp_all
  then show ?thesis
    using core' q by auto
qed

theorem init_installs_hooks_iff_required_witness:
  "init example_ctor example_agents contexts_off example_core (AmdExtTable 12288)
     (QueueController_default :: (nat, nat) QueueController) =
   (example_core, example_start,
    [AgentCache_constructor 0, AgentCache_constructor 2,
     LOG_ERROR_GPU_Agent_Construction_Failed 4, AgentCache_constructor 3]) \<and>
   \<not> interception_required contexts_off \<and>
   hsa_queue_create_fn example_core \<noteq> create_queue_hook \<and>
   hsa_queue_destroy_fn example_core \<noteq> destroy_queue_hook \<and>
   queues (QueueController_default :: (nat, nat) QueueController) = [] \<and>
   (\<exists>st''. app_run example_core [Hsa_queue_create 10 100, Hsa_queue_destroy 100] example_start
              = Inr st'' \<and> queues st'' = []) \<and>
   interception_required contexts_on \<and>
   fst (init example_ctor example_agents contexts_on example_core (AmdExtTable 12288)
     (QueueController_default :: (nat, nat) QueueController)) =
   \<lparr>hsa_queue_create_fn = create_queue_hook, hsa_queue_destroy_fn = destroy_queue_hook\<rparr>"
proof -
  have off: "\<not> interception_required contexts_off"
    by (simp add: interception_required_def contexts_off_def)
  have on: "interception_required contexts_on"
    by (simp add: interception_required_def contexts_on_def contexts_off_def)
  have slots: "hsa_queue_create_fn example_core \<noteq> create_queue_hook"
    "hsa_queue_destroy_fn example_core \<noteq> destroy_queue_hook"
    by (simp_all add: example_core_def)
  have empty: "queues (QueueController_default :: (nat, nat) QueueController) = []"
    by (simp add: QueueController_default_def)
  have "\<forall>calls. \<exists>st''. app_run example_core calls example_start = Inr st'' \<and> queues st'' = []"
    using init_installs_hooks_iff_required [OF example_init] off slots empty by blast
  then have ex: "\<exists>st''. app_run example_core [Hsa_queue_create 10 100, Hsa_queue_destroy 100]
      example_start = Inr st'' \<and> queues st'' = []"
    by blast
  have hooks: "fst (init example_ctor example_agents contexts_on example_core (AmdExtTable 12288)
     (QueueController_default :: (nat, nat) QueueController)) =
     \<lparr>hsa_queue_create_fn = create_queue_hook, hsa_queue_destroy_fn = destroy_queue_hook\<rparr>"
    using init_installs_hooks_iff_required [OF example_init_on] on
    by (simp add: example_init_on)
  show ?thesis
    by (intro conjI example_init off slots empty ex on hooks)
qed

text \<open>
  C3. The create-queue hook, called with an agent handle that no entry of the agent
  capability cache has, ends in the fatal diagnostic and returns no status; called with
  a handle that an entry has, it constructs a proxy queue for such an entry, inserts it
  into the live-queue table under the new queue handle and returns success.
\<close>
theorem create_queue_unknown_agent_is_fatal:
  "(agent \<notin> get_agent_handle ` snd ` set (supported_agents st) \<longrightarrow>
      create_queue agent ptr st = Inl (LOG_FATAL_Could_not_find_agent agent)) \<and>
   (agent \<in> get_agent_handle ` snd ` set (supported_agents st) \<longrightarrow>
      (\<exists>st' q. create_queue agent ptr st = Inr (HSA_STATUS_SUCCESS, st') \<and>
         map_of (queues st') ptr = Some q \<and>
         get_agent q \<in> snd ` set (supported_agents st) \<and>
         get_agent_handle (get_agent q) = agent))"
proof (intro conjI impI)
  assume "agent \<notin> get_agent_handle ` snd ` set (supported_agents st)"
  then show "create_queue agent ptr st = Inl (LOG_FATAL_Could_not_find_agent agent)"
    by (simp add: create_queue_def create_queue_loop_unknown)
next
  assume "agent \<in> get_agent_handle ` snd ` set (supported_agents st)"
  from create_queue_loop_known [OF this, of ptr st] obtain st' agent_info where
    r: "create_queue agent ptr st = Inr (HSA_STATUS_SUCCESS, st')"
    and a: "agent_info \<in> snd ` set (supported_agents st)" "get_agent_handle agent_info = agent"
    and q: "add_queue ptr (Some (new_Queue agent_info)) st = Inr st'"
    by (auto simp: create_queue_def)
  have "map_of (queues st') ptr =
      Some (backfill (id_handle (agent_t agent_info)) (callback_cache st) (new_Queue agent_info))"
    using q by (auto simp: add_queue_eq update_conv' new_Queue_def)
  then show "\<exists>st' q. create_queue agent ptr st = Inr (HSA_STATUS_SUCCESS, st') \<and>
         map_of (queues st') ptr = Some q \<and>
         get_agent q \<in> snd ` set (supported_agents st) \<and>
         get_agent_handle (get_agent q) = agent"
    using r a by (simp add: new_Queue_def)
qed

theorem create_queue_unknown_agent_is_fatal_witness:
  "40 \<notin> get_agent_handle ` snd ` set (supported_agents example_start) \<and>
   create_queue 40 300 example_start = Inl (LOG_FATAL_Could_not_find_agent 40) \<and>
   20 \<in> get_agent_handle ` snd ` set (supported_agents example_start) \<and>
   (\<exists>st' q. create_queue 20 200 example_start = Inr (HSA_STATUS_SUCCESS, st') \<and>
      map_of (queues st') 200 = Some q \<and>
      get_agent q \<in> snd ` set (supported_agents example_start) \<and>
      get_agent_handle (get_agent q) = 20)"
proof -
  have unknown: "40 \<notin> get_agent_handle ` snd ` set (supported_agents example_start)"
    and known: "20 \<in> get_agent_handle ` snd ` set (supported_agents example_start)"
    by (simp_all add: example_defs)
  show ?thesis
    using create_queue_unknown_agent_is_fatal [of 40 example_start 300]
      create_queue_unknown_agent_is_fatal [of 20 example_start 200] unknown known
    by simp
qed

text \<open>
  C4. In every state the calls reach, a snapshot entry of a queue belongs to a registry
  entry whose agent handle is the queue's agent handle: a callback registered for agent
  A is in no snapshot of a queue of another agent B. In particular \<^verbatim>\<open>add_callback\<close>
  leaves every queue of another agent as it was, without the new identifier. (The
  invocation of callbacks is in the class \<^verbatim>\<open>Queue\<close> and outside this model: a queue can
  only invoke what its snapshot holds.)
\<close>
theorem callbacks_only_on_queues_of_their_agent:
  assumes "queues st = []" and "callback_cache st = []"
    and "list_all fresh_queue_arg cs"
    and "run cs st = Inr (ids, st')"
  shows "(\<forall>(ptr, q) \<in> set (queues st'). \<forall>cbid cb. map_of (callbacks q) cbid = Some cb \<longrightarrow>
            (\<exists>agent. map_of (callback_cache st') cbid = Some (agent, cb) \<and>
                      id_handle agent = id_handle (agent_t (get_agent q)))) \<and>
         (\<forall>agent qcb ccb. \<forall>(ptr, q) \<in> set (queues (snd (add_callback agent qcb ccb st'))).
            id_handle (agent_t (get_agent q)) \<noteq> id_handle agent \<longrightarrow>
            (ptr, q) \<in> set (queues st') \<and>
            map_of (callbacks q) (fst (add_callback agent qcb ccb st')) = None)"
proof -
  have inv: "controller_inv st'"
    using inv_run [OF inv_fresh_controller [OF assms(1,2)] assms(3,4)] .
  have snap: "map_of (callbacks q) cbid =
      entries_for (callback_cache st') (id_handle (agent_t (get_agent q))) cbid"
    if "(ptr, q) \<in> set (queues st')" for ptr q cbid
    using inv that by (auto simp: controller_inv_def snapshots_reflect_registry_def)
  have fresh: "client_id st' \<notin> fst ` set (callback_cache st')"
    using inv by (auto simp: controller_inv_def)
  have one: "\<exists>agent. map_of (callback_cache st') cbid = Some (agent, cb) \<and>
      id_handle agent = id_handle (agent_t (get_agent q))"
    if "(ptr, q) \<in> set (queues st')" "map_of (callbacks q) cbid = Some cb" for ptr q cbid cb
    using that(2) unfolding snap [OF that(1)] entries_for_def
    by (auto split: option.splits if_splits)
  have two: "(ptr, q) \<in> set (queues st') \<and>
      map_of (callbacks q) (fst (add_callback agent qcb ccb st')) = None"
    if "(ptr, q) \<in> set (queues (snd (add_callback agent qcb ccb st')))"
      "id_handle (agent_t (get_agent q)) \<noteq> id_handle agent" for ptr q agent qcb ccb
  proof -
    have mem: "(ptr, q) \<in> set (queues st')"
      using that by (auto simp: add_callback_def Let_def Queue_register_callback_def split: if_splits)
    show ?thesis
      using mem snap [OF mem] entries_for_notin [OF fresh]
      by (simp add: add_callback_def Let_def)
  qed
  show ?thesis
    using one two by blast
qed

theorem callbacks_only_on_queues_of_their_agent_witness:
  "queues example_start = [] \<and> callback_cache example_start = [] \<and>
   list_all fresh_queue_arg example_calls \<and>
   run example_calls example_start = Inr ([1, 2, 3], example_state) \<and>
   (200, \<lparr>get_agent = cache_B, callbacks = [(2, 5, 6)]\<rparr>)
     \<in> set (queues (snd (add_callback agent_A 11 12 example_state))) \<and>
   id_handle (agent_t cache_B) \<noteq> id_handle agent_A \<and>
   map_of [(2, 5, 6 :: nat)] (fst (add_callback agent_A 11 (12 :: nat) example_state)) = (None :: (nat \<times> nat) option)"
proof -
  have "(200, \<lparr>get_agent = cache_B, callbacks = [(2, 5, 6)]\<rparr>)
     \<in> set (queues (snd (add_callback agent_A 11 12 example_state)))"
    and "id_handle (agent_t cache_B) \<noteq> id_handle agent_A"
    and "map_of [(2, 5, 6 :: nat)] (fst (add_callback agent_A 11 (12 :: nat) example_state)) = (None :: (nat \<times> nat) option)"
    by (simp_all add: example_defs add_callback_def Let_def)
  then show ?thesis
    using callbacks_only_on_queues_of_their_agent [OF example_fresh(1,2,4) example_run]
      example_fresh example_run
    by simp
qed

text \<open>
  C5. The identifiers that the \<^verbatim>\<open>add_callback\<close> calls of a run return, in the order of
  the calls and whatever other calls come between them, are 1, 2, ..., N: the first is
  1, they increase strictly, they are pairwise distinct, 0 is not among them, and the
  next call returns N + 1, so that no identifier is returned twice. The counter starts at
  1 with the process.
\<close>
theorem add_callback_identifiers_increase:
  assumes "client_id st = 1" and "run cs st = Inr (ids, st')"
  shows "length ids = length (filter is_add_callback cs) \<and>
         ids = [1 ..< Suc (length ids)] \<and>
         sorted_wrt (<) ids \<and> distinct ids \<and> 0 \<notin> set ids \<and>
         (ids \<noteq> [] \<longrightarrow> hd ids = 1) \<and>
         (\<forall>agent qcb ccb. fst (add_callback agent qcb ccb st') = Suc (length ids))"
proof -
  have ids: "ids = [1 ..< Suc (length (filter is_add_callback cs))]"
    and next_id: "client_id st' = Suc (length (filter is_add_callback cs))"
    using run_ids [OF assms(2)] by (simp_all add: assms(1))
  have len: "length ids = length (filter is_add_callback cs)"
    unfolding ids length_upt by simp
  have eq: "ids = [1 ..< Suc (length ids)]"
    using ids len by simp
  have zero: "0 \<notin> set [1 ..< Suc n]" for n :: nat
    by simp
  have "sorted_wrt (<) ids"
    by (subst eq) (rule sorted_wrt_upt)
  moreover have "distinct ids"
    by (subst eq) (rule distinct_upt)
  moreover have "0 \<notin> set ids"
    by (subst eq) (rule zero)
  moreover have "ids \<noteq> [] \<longrightarrow> hd ids = 1"
  proof
    assume "ids \<noteq> []"
    then have "1 < Suc (length ids)" by simp
    then have "hd [1 ..< Suc (length ids)] = 1" by (rule hd_upt)
    then show "hd ids = 1" using eq by simp
  qed
  moreover have "fst (add_callback agent qcb ccb st') = Suc (length ids)" for agent qcb ccb
    by (simp add: add_callback_def Let_def next_id len)
  ultimately show ?thesis
    using len eq by blast
qed

theorem add_callback_identifiers_increase_witness:
  "client_id example_start = 1 \<and>
   run example_calls example_start = Inr ([1, 2, 3], example_state) \<and>
   length [1, 2, 3 :: nat] = length (filter is_add_callback example_calls) \<and>
   sorted_wrt (<) [1, 2, 3 :: nat] \<and> distinct [1, 2, 3 :: nat] \<and>
   0 \<notin> set [1, 2, 3 :: nat] \<and> hd [1, 2, 3 :: nat] = 1 \<and>
   fst (add_callback agent_A 11 12 example_state) = 4"
  using add_callback_identifiers_increase [OF example_fresh(3) example_run]
    example_fresh(3) example_run
  by simp

text \<open>
  C6. \<^verbatim>\<open>destory_queue\<close> has no failing branch. A second call on the same handle changes
  nothing, a call on a handle that is not in the live-queue table changes nothing, after
  a call the handle is not in the table, and the other handles keep their queues. The
  installed destroy-queue hook does the same and returns success in every case.
\<close>
theorem destory_queue_idempotent:
  "destory_queue ptr (destory_queue ptr st) = destory_queue ptr st \<and>
   (ptr \<notin> fst ` set (queues st) \<longrightarrow> destory_queue ptr st = st) \<and>
   ptr \<notin> fst ` set (queues (destory_queue ptr st)) \<and>
   (\<forall>p. p \<noteq> ptr \<longrightarrow> map_of (queues (destory_queue ptr st)) p = map_of (queues st) p) \<and>
   destroy_queue ptr st = (HSA_STATUS_SUCCESS, destory_queue ptr st)"
  by (simp add: destory_queue_def destroy_queue_def AList.delete_idem AList.delete_notin_dom)

theorem destory_queue_idempotent_witness:
  "300 \<notin> fst ` set (queues example_state) \<and>
   destory_queue 300 example_state = example_state \<and>
   destory_queue 100 (destory_queue 100 example_state) = destory_queue 100 example_state \<and>
   100 \<notin> fst ` set (queues (destory_queue 100 example_state)) \<and>
   (200 :: hsa_queue_ptr) \<noteq> 100 \<and>
   map_of (queues (destory_queue 100 example_state)) 200 = map_of (queues example_state) 200 \<and>
   destroy_queue 300 example_state = (HSA_STATUS_SUCCESS, example_state)"
proof -
  have absent: "300 \<notin> fst ` set (queues example_state)"
    by (simp add: example_state_def)
  have neq: "(200 :: hsa_queue_ptr) \<noteq> 100"
    by simp
  show ?thesis
    using destory_queue_idempotent [of 300 example_state]
      destory_queue_idempotent [of 100 example_state] absent neq
    by simp
qed

text \<open>
  C7. The agent callback of \<^verbatim>\<open>init\<close> invokes the \<^verbatim>\<open>AgentCache\<close> constructor on exactly the
  enumerated agents of type GPU. It logs an error for exactly the GPU agents whose
  construction fails, and goes on with the agents that follow: when at most \<open>2 ^ 32\<close>
  agents are enumerated into an empty cache, the cache afterwards holds, under its index,
  the entry of every GPU agent whose construction succeeded, whatever happened to the
  others.
\<close>
theorem init_builds_agent_cache:
  assumes "init ctor agents contexts core ext st = (core', st', events)"
  shows "(\<forall>j < length agents.
            AgentCache_constructor j \<in> set events \<longleftrightarrow>
            agent_type (agents ! j) = ROCPROFILER_AGENT_TYPE_GPU) \<and>
         (\<forall>j. AgentCache_constructor j \<in> set events \<longrightarrow> j < length agents) \<and>
         (\<forall>h. LOG_ERROR_GPU_Agent_Construction_Failed h \<in> set events \<longleftrightarrow>
            (\<exists>j < length agents. agent_type (agents ! j) = ROCPROFILER_AGENT_TYPE_GPU \<and>
               ctor (agents ! j) j core ext = None \<and> id_handle (agents ! j) = h)) \<and>
         (length agents \<le> 2 ^ 32 \<and> supported_agents st = [] \<longrightarrow>
            (\<forall>j < length agents.
               map_of (supported_agents st') (word_of_nat j) =
                 (if agent_type (agents ! j) = ROCPROFILER_AGENT_TYPE_GPU
                  then ctor (agents ! j) j core ext else None)))"
proof -
  have ev: "events = agent_events ctor core ext 0 agents"
    and cached: "supported_agents st' =
      fst (agents_callback ctor core ext 0 agents (supported_agents st, []))"
    using assms by (auto simp: init_eq snd_agents_callback)
  have cache: "map_of (supported_agents st') (word_of_nat j) =
      (if agent_type (agents ! j) = ROCPROFILER_AGENT_TYPE_GPU
       then ctor (agents ! j) j core ext else None)"
    if len: "length agents \<le> 2 ^ 32" and empty: "supported_agents st = []"
      and j: "j < length agents" for j
  proof -
    have uj: "unat (word_of_nat j :: 32 word) = j"
      using len j by (intro unat_word_of_nat_32) simp
    show ?thesis
      unfolding cached empty
      by (subst fst_agents_callback) (use len j uj in simp_all)
  qed
  show ?thesis
    using cache by (simp add: ev ctor_event_iff log_event_iff)
qed

theorem init_builds_agent_cache_witness:
  "init example_ctor example_agents contexts_off example_core (AmdExtTable 12288)
     (QueueController_default :: (nat, nat) QueueController) =
   (example_core, example_start,
    [AgentCache_constructor 0, AgentCache_constructor 2,
     LOG_ERROR_GPU_Agent_Construction_Failed 4, AgentCache_constructor 3]) \<and>
   length example_agents \<le> 2 ^ 32 \<and>
   supported_agents (QueueController_default :: (nat, nat) QueueController) = [] \<and>
   (3 :: nat) < length example_agents \<and>
   agent_type (example_agents ! 1) \<noteq> ROCPROFILER_AGENT_TYPE_GPU \<and>
   example_ctor (example_agents ! 2) 2 example_core (AmdExtTable 12288) = None \<and>
   map_of (supported_agents example_start) 3 = Some cache_B"
proof -
  have len: "length example_agents \<le> 2 ^ 32" "(3 :: nat) < length example_agents"
    by (simp_all add: example_agents_def)
  have empty: "supported_agents (QueueController_default :: (nat, nat) QueueController) = []"
    by (simp add: QueueController_default_def)
  have cpu: "agent_type (example_agents ! 1) \<noteq> ROCPROFILER_AGENT_TYPE_GPU"
    and fails: "example_ctor (example_agents ! 2) 2 example_core (AmdExtTable 12288) = None"
    by (simp_all add: example_defs)
  have "map_of (supported_agents example_start) (word_of_nat 3) =
        (if agent_type (example_agents ! 3) = ROCPROFILER_AGENT_TYPE_GPU
         then example_ctor (example_agents ! 3) 3 example_core (AmdExtTable 12288) else None)"
    using init_builds_agent_cache [OF example_init] len empty by blast
  then have "map_of (supported_agents example_start) 3 = Some cache_B"
    by (simp add: example_defs)
  then show ?thesis
    using example_init len empty cpu fails by simp
qed

text \<open>
  C8. In \<^verbatim>\<open>add_callback\<close> the identifier is not allocated free of the locks. The three
  statements that touch the counter (the read into \<^verbatim>\<open>return_id\<close>, the read for the
  registry key and the increment) all run while the calling thread holds the lock of the
  callback registry, and the call returns the identifier only after it has also taken
  and released the lock of the live-queue table. So: while another thread holds the
  registry lock the call waits at its first statement and allocates nothing; while
  another thread holds the table lock the identifier is allocated and stored but not
  returned; with both locks free the call runs to its end and returns what the
  sequential \<^verbatim>\<open>add_callback\<close> returns, in the state it leaves.
\<close>
theorem identifier_allocation_under_registry_lock:
  "(callback_cache_lock \<in> others \<longrightarrow>
      add_callback_thread others agent qcb ccb st =
        (add_callback_stmts, \<lparr>return_id = None, returned = None\<rparr>, st)) \<and>
   (callback_cache_lock \<notin> others \<and> queues_lock \<in> others \<longrightarrow>
      add_callback_thread others agent qcb ccb st =
        (drop 4 add_callback_stmts, \<lparr>return_id = Some (client_id st), returned = None\<rparr>,
         st\<lparr>callback_cache :=
               AList.update (client_id st) (agent, qcb, ccb) (callback_cache st),
            client_id := client_id st + 1\<rparr>)) \<and>
   (callback_cache_lock \<notin> others \<and> queues_lock \<notin> others \<longrightarrow>
      add_callback_thread others agent qcb ccb st =
        ([], \<lparr>return_id = Some (fst (add_callback agent qcb ccb st)),
              returned = Some (fst (add_callback agent qcb ccb st))\<rparr>,
         snd (add_callback agent qcb ccb st))) \<and>
   (\<forall>(s, held) \<in> set (held_at [] add_callback_stmts).
      accesses_client_id s \<longrightarrow> callback_cache_lock \<in> set held) \<and>
   filter accesses_client_id add_callback_stmts =
     [Load_return_id, Store_cb_cache, Increment_client_id]"
proof -
  have "filter accesses_client_id add_callback_stmts =
      [Load_return_id, Store_cb_cache, Increment_client_id]"
    by (simp add: add_callback_stmts_def)
  then show ?thesis
    using thread_registry_busy [of others agent qcb ccb st]
      thread_table_busy [of others agent qcb ccb st]
      thread_free [of others agent qcb ccb st] client_id_accesses_locked
    by blast
qed

theorem identifier_allocation_under_registry_lock_witness:
  "callback_cache_lock \<notin> {queues_lock} \<and> queues_lock \<in> {queues_lock} \<and>
   add_callback_thread {queues_lock} agent_A (7 :: nat) (8 :: nat) example_start =
     (drop 4 add_callback_stmts, \<lparr>return_id = Some 1, returned = None\<rparr>,
      example_start\<lparr>callback_cache := [(1, agent_A, 7, 8)], client_id := 2\<rparr>) \<and>
   callback_cache_lock \<notin> {} \<and> queues_lock \<notin> {} \<and>
   add_callback_thread {} agent_A (7 :: nat) (8 :: nat) example_start =
     ([], \<lparr>return_id = Some 1, returned = Some 1\<rparr>,
      example_start\<lparr>callback_cache := [(1, agent_A, 7, 8)], client_id := 2\<rparr>) \<and>
   (Increment_client_id, [callback_cache_lock]) \<in> set (held_at [] add_callback_stmts) \<and>
   accesses_client_id Increment_client_id \<and> callback_cache_lock \<in> set [callback_cache_lock]"
proof -
  have locks: "callback_cache_lock \<notin> {queues_lock}" "queues_lock \<in> {queues_lock}"
    "callback_cache_lock \<notin> {}" "queues_lock \<notin> {}"
    by simp_all
  have seq: "add_callback agent_A (7 :: nat) (8 :: nat) example_start =
      (1, example_start\<lparr>callback_cache := [(1, agent_A, 7, 8)], client_id := 2\<rparr>)"
    by (simp add: add_callback_def example_defs Let_def)
  have at: "(Increment_client_id, [callback_cache_lock]) \<in> set (held_at [] add_callback_stmts)"
    by (simp add: add_callback_stmts_def)
  have vals: "client_id example_start = 1" "callback_cache example_start = []"
    by (simp_all add: example_defs)
  show ?thesis
    using identifier_allocation_under_registry_lock [of "{queues_lock}" agent_A 7 8 example_start]
      identifier_allocation_under_registry_lock [of "{}" agent_A 7 8 example_start]
      locks at
    by (simp add: seq vals)
qed

theorem identifier_allocation_waits_for_registry_lock:
  "\<not> lock_free_allocation agent_A (7 :: nat) (8 :: nat) example_start \<and>
   add_callback_thread {callback_cache_lock} agent_A (7 :: nat) (8 :: nat) example_start =
     (add_callback_stmts, \<lparr>return_id = None, returned = None\<rparr>, example_start)"
  by (simp add: lock_free_allocation_def thread_registry_busy)

text \<open>
  C9. \<^verbatim>\<open>remove_callback\<close> has no failing branch. In every state the calls reach, removing
  an identifier that no \<^verbatim>\<open>add_callback\<close> call has returned, or one that is not in the
  registry (any more), leaves the whole controller as it is, the registry and every
  snapshot included; and a second removal of an identifier changes nothing after the
  first.
\<close>
theorem remove_callback_unknown_identifier:
  assumes "queues st = []" and "callback_cache st = []"
    and "list_all fresh_queue_arg cs"
    and "run cs st = Inr (ids, st')"
  shows "(cbid \<notin> set ids \<longrightarrow> remove_callback cbid st' = st') \<and>
         (cbid \<notin> fst ` set (callback_cache st') \<longrightarrow> remove_callback cbid st' = st') \<and>
         remove_callback cbid (remove_callback cbid st') = remove_callback cbid st'"
proof -
  have inv: "snapshots_reflect_registry st'"
    using inv_run [OF inv_fresh_controller [OF assms(1,2)] assms(3,4)]
    by (simp add: controller_inv_def)
  have keys: "fst ` set (callback_cache st') \<subseteq> set ids"
    using registry_keys_run [OF assms(4)] by (simp add: assms(2))
  show ?thesis
    using remove_callback_absent [OF inv, of cbid] keys remove_callback_idem [of cbid st']
    by auto
qed

theorem remove_callback_unknown_identifier_witness:
  "queues example_start = [] \<and> callback_cache example_start = [] \<and>
   list_all fresh_queue_arg example_calls \<and>
   run example_calls example_start = Inr ([1, 2, 3], example_state) \<and>
   9 \<notin> set [1, 2, 3 :: nat] \<and> remove_callback 9 example_state = example_state \<and>
   1 \<notin> fst ` set (callback_cache example_state) \<and>
   remove_callback 1 example_state = example_state \<and>
   remove_callback 2 (remove_callback 2 example_state) = remove_callback 2 example_state"
proof -
  have never: "9 \<notin> set [1, 2, 3 :: nat]"
    by simp
  have gone: "1 \<notin> fst ` set (callback_cache example_state)"
    by (simp add: example_state_def)
  show ?thesis
    using remove_callback_unknown_identifier [OF example_fresh(1,2,4) example_run, of 9]
      remove_callback_unknown_identifier [OF example_fresh(1,2,4) example_run, of 1]
      remove_callback_unknown_identifier [OF example_fresh(1,2,4) example_run, of 2]
      never gone example_fresh example_run
    by simp
qed

text \<open>
  C10. \<^verbatim>\<open>add_queue\<close> with a handle that the live-queue table already has, and a queue
  that is not null, returns normally: the table then maps the handle to the supplied
  queue (with the backfill of the matching callbacks), it has the same handles as
  before, so the queue stored before is gone, and every other handle keeps its queue.
\<close>
theorem add_queue_replaces_existing_handle:
  assumes "map_of (queues st) ptr = Some old"
  shows "\<exists>st'. add_queue ptr (Some q) st = Inr st' \<and>
           map_of (queues st') ptr =
             Some (backfill (id_handle (agent_t (get_agent q))) (callback_cache st) q) \<and>
           map fst (queues st') = map fst (queues st) \<and>
           (\<forall>p. p \<noteq> ptr \<longrightarrow> map_of (queues st') p = map_of (queues st) p) \<and>
           callback_cache st' = callback_cache st \<and> client_id st' = client_id st"
proof -
  have "ptr \<in> set (map fst (queues st))"
    using assms by (metis map_of_eq_None_iff option.distinct(1) set_map)
  then show ?thesis
    by (simp add: add_queue_eq update_conv' update_keys)
qed

theorem add_queue_replaces_existing_handle_witness:
  "map_of (queues example_state) 100 = Some \<lparr>get_agent = cache_A, callbacks = [(3, 9, 10)]\<rparr> \<and>
   (\<exists>st'. add_queue 100 (Some (new_Queue cache_B)) example_state = Inr st' \<and>
      map_of (queues st') 100 = Some \<lparr>get_agent = cache_B, callbacks = [(2, 5, 6)]\<rparr> \<and>
      map fst (queues st') = [100, 200])"
proof -
  have old: "map_of (queues example_state) 100 =
      Some \<lparr>get_agent = cache_A, callbacks = [(3, 9, 10)]\<rparr>"
    by (simp add: example_state_def)
  have new: "backfill (id_handle (agent_t (get_agent (new_Queue cache_B))))
      (callback_cache example_state) (new_Queue cache_B) =
      \<lparr>get_agent = cache_B, callbacks = [(2, 5, 6)]\<rparr>"
    by (simp add: backfill_def example_defs new_Queue_def Queue_register_callback_def)
  have keys: "map fst (queues example_state) = [100, 200]"
    by (simp add: example_state_def)
  from add_queue_replaces_existing_handle [OF old, of "new_Queue cache_B"]
  obtain st' where "add_queue 100 (Some (new_Queue cache_B)) example_state = Inr st'"
    and "map_of (queues st') 100 = Some \<lparr>get_agent = cache_B, callbacks = [(2, 5, 6)]\<rparr>"
    and "map fst (queues st') = [100, 200]"
    unfolding new keys by auto
  then show ?thesis
    using old by auto
qed

end
